theory Spec2Isabelle
  imports Main "HOL-Library.AList"
begin

section \<open>Text primitives used by survey\_analysis.py\<close>

text \<open>
  Strings are lists of 8-bit characters, read as the code points U+0000 .. U+00FF.
  \<open>is_space\<close> is the character class shared by \<open>str.strip()\<close> and the regular
  expression class \<open>\s\<close> of a \<open>str\<close> pattern (both test \<open>str.isspace\<close>):
  TAB .. CR, FS .. US, SPACE, NEL and NO-BREAK SPACE.
\<close>

definition is_space :: "char \<Rightarrow> bool" where
  "is_space c =
     (let n = (of_char c :: nat)
      in (9 \<le> n \<and> n \<le> 13) \<or> (28 \<le> n \<and> n \<le> 32) \<or> n = 133 \<or> n = 160)"

text \<open>\<open>str.lower()\<close>, one character at a time: A .. Z and the Latin-1 capitals
  (all of U+00C0 .. U+00DE but the multiplication sign U+00D7) move up by 32.\<close>

definition lower_char :: "char \<Rightarrow> char" where
  "lower_char c =
     (let n = (of_char c :: nat)
      in if (65 \<le> n \<and> n \<le> 90) \<or> (192 \<le> n \<and> n \<le> 222 \<and> n \<noteq> 215)
         then char_of (n + 32) else c)"

definition lower :: "string \<Rightarrow> string" where
  "lower s = map lower_char s"

text \<open>\<open>str.strip()\<close> with no argument: drop the white space at both ends.\<close>

definition strip :: "string \<Rightarrow> string" where
  "strip s = rev (dropWhile is_space (rev (dropWhile is_space s)))"

text \<open>\<open>re.sub(r'\s+', ' ', s)\<close>: every maximal run of white space becomes one SPACE.\<close>

function re_sub_spaces :: "string \<Rightarrow> string" where
  "re_sub_spaces [] = []"
| "re_sub_spaces (c # cs) =
     (if is_space c then CHR '' '' # re_sub_spaces (dropWhile is_space cs)
      else c # re_sub_spaces cs)"
  by pat_completeness auto
termination
  by (relation "measure length") (auto simp: le_imp_less_Suc length_dropWhile_le)

text \<open>The character class \<open>[,\s;]\<close> of the splitting pattern.\<close>

definition is_delim :: "char \<Rightarrow> bool" where
  "is_delim c = (c = CHR '','' \<or> is_space c \<or> c = CHR '';'')"

text \<open>
  \<open>re.split(r'[,\s;]+', s)\<close>: the pieces between the maximal runs of delimiters. A run
  at the start or at the end of the string leaves an empty piece there, and the empty
  string splits into one empty piece, as in Python.
\<close>

function re_split_delims :: "string \<Rightarrow> string list" where
  "re_split_delims [] = [[]]"
| "re_split_delims (c # cs) =
     (if is_delim c then [] # re_split_delims (dropWhile is_delim cs)
      else (case re_split_delims cs of
              [] \<Rightarrow> [[c]]
            | p # ps \<Rightarrow> (c # p) # ps))"
  by pat_completeness auto
termination
  by (relation "measure length") (auto simp: le_imp_less_Suc length_dropWhile_le)

text \<open>\<open>sep.join(xs)\<close>.\<close>

fun join :: "string \<Rightarrow> string list \<Rightarrow> string" where
  "join sep [] = []"
| "join sep [x] = x"
| "join sep (x # y # ys) = x @ sep @ join sep (y # ys)"

section \<open>Cells and the annotator\<close>

text \<open>
  A cell of the data frame is either missing (\<open>pd.isna\<close> holds: \<open>None\<close>) or a value,
  kept as the string that \<open>str(value)\<close> returns.
\<close>

type_synonym cell = "string option"

text \<open>What the code reads of a spaCy token (\<open>tok_lemma\<close> is \<open>token.lemma_\<close>, \<open>tok_pos\<close> is \<open>token.pos_\<close>).\<close>

record token =
  tok_lemma :: string
  tok_pos :: string
  is_alpha :: bool
  is_stop :: bool

text \<open>The loaded spaCy pipeline \<open>nlp\<close> is a parameter: a function from a text to its tokens.\<close>

type_synonym annotator = "string \<Rightarrow> token list"

section \<open>The extraction functions\<close>

text \<open>Line 29: \<open>re.sub(r'\s+', ' ', str(adj_string).lower().strip())\<close>.\<close>

definition normalize_text :: "string \<Rightarrow> string" where
  "normalize_text s = re_sub_spaces (strip (lower s))"

definition extract_adjectives :: "cell \<Rightarrow> string list" where
  "extract_adjectives adj_string =
     (case adj_string of
        None \<Rightarrow> []
      | Some s \<Rightarrow>
          map strip (filter (\<lambda>item. strip item \<noteq> []) (re_split_delims (normalize_text s))))"

definition tokenize_description :: "annotator \<Rightarrow> cell \<Rightarrow> string list" where
  "tokenize_description nlp text =
     (case text of
        None \<Rightarrow> []
      | Some s \<Rightarrow>
          map tok_lemma (filter (\<lambda>token. is_alpha token \<and> \<not> is_stop token) (nlp (lower s))))"

fun filter_adjectives :: "annotator \<Rightarrow> string list \<Rightarrow> string list" where
  "filter_adjectives nlp [] = []"
| "filter_adjectives nlp (candidate # candidates) =
     (let doc = nlp candidate
      in if list_all (\<lambda>token. tok_pos token = ''ADJ'') (filter is_alpha doc)
         then join '' '' (map tok_lemma (filter is_alpha doc)) # filter_adjectives nlp candidates
         else filter_adjectives nlp candidates)"

definition extract_nouns :: "annotator \<Rightarrow> cell \<Rightarrow> string list" where
  "extract_nouns nlp text =
     (case text of
        None \<Rightarrow> []
      | Some s \<Rightarrow>
          map tok_lemma
            (filter (\<lambda>token. is_alpha token \<and> \<not> is_stop token
                              \<and> tok_pos token \<in> set [''NOUN'', ''PROPN''])
               (nlp (lower s))))"


section \<open>Dictionaries and counters\<close>

datatype error = KeyError string | ValueError

definition bind_err :: "error + 'a \<Rightarrow> ('a \<Rightarrow> error + 'b) \<Rightarrow> error + 'b" where
  "bind_err m f = (case m of Inl e \<Rightarrow> Inl e | Inr x \<Rightarrow> f x)"

text \<open>
  A \<open>dict\<close> is an association list in insertion order, which Python's dicts keep.
  \<open>d[k] = v\<close> is \<open>AList.update k v d\<close>: it overwrites the entry of \<open>k\<close> in place, or
  appends a new entry. Reading \<open>d[k]\<close> raises \<open>KeyError\<close> where \<open>k\<close> is absent.
\<close>

definition dict_get :: "(string \<times> 'v) list \<Rightarrow> string \<Rightarrow> error + 'v" where
  "dict_get d k = (case map_of d k of None \<Rightarrow> Inl (KeyError k) | Some v \<Rightarrow> Inr v)"

text \<open>\<open>d[k][field] += x\<close> and \<open>d[k][field].extend(xs)\<close>: read the entry, write it back changed.\<close>

definition dict_modify ::
  "(string \<times> 'v) list \<Rightarrow> string \<Rightarrow> ('v \<Rightarrow> 'v) \<Rightarrow> error + (string \<times> 'v) list" where
  "dict_modify d k f = bind_err (dict_get d k) (\<lambda>v. Inr (AList.update k (f v) d))"

text \<open>\<open>d.update(other)\<close> and a dict display or comprehension: the entries are stored in order.\<close>

definition dict_update :: "(string \<times> 'v) list \<Rightarrow> (string \<times> 'v) list \<Rightarrow> (string \<times> 'v) list" where
  "dict_update d kvs = fold (\<lambda>(k, v). AList.update k v) kvs d"

text \<open>
  \<open>Counter(xs)\<close> counts the elements in one pass, \<open>c[elem] = c.get(elem, 0) + 1\<close>, so its
  entries stand in the order of first occurrence.
\<close>

definition Counter :: "string list \<Rightarrow> (string \<times> nat) list" where
  "Counter xs =
     foldl (\<lambda>c elem. AList.update elem ((case map_of c elem of None \<Rightarrow> 0 | Some n \<Rightarrow> n) + 1) c)
       [] xs"

text \<open>
  \<open>c.most_common(n)\<close> is \<open>heapq.nlargest(n, c.items(), key=itemgetter(1))\<close>, that is
  \<open>sorted(c.items(), key=itemgetter(1), reverse=True)[:n]\<close>; the sort is stable, also
  with \<open>reverse=True\<close>. \<open>sort_key\<close> is a stable insertion sort, and sorting by the
  negated count puts the larger count first.
\<close>

definition most_common :: "nat \<Rightarrow> (string \<times> nat) list \<Rightarrow> (string \<times> nat) list" where
  "most_common n c = take n (sort_key (\<lambda>item. - int (snd item)) c)"

text \<open>\<open>max\<close> of an iterable raises \<open>ValueError\<close> on an empty one.\<close>

definition py_max :: "nat list \<Rightarrow> error + nat" where
  "py_max xs = (case xs of [] \<Rightarrow> Inl ValueError | y # ys \<Rightarrow> Inr (fold max ys y))"

text \<open>\<open>str(n)\<close> of a natural number, for the f-strings.\<close>

fun str_nat :: "nat \<Rightarrow> string" where
  "str_nat n =
     (if n < 10 then [char_of (48 + n)] else str_nat (n div 10) @ [char_of (48 + n mod 10)])"

text \<open>\<open>enumerate(xs)\<close>.\<close>

definition enumerate_list :: "'a list \<Rightarrow> (nat \<times> 'a) list" where
  "enumerate_list xs = zip [0..<length xs] xs"

section \<open>The state of the analysis\<close>

text \<open>
  A row of the data frame gives a cell for each column label. Lines 13 to 22 fix the
  labels of the frame (\<open>columns\<close> below), so no read of a row raises \<open>KeyError\<close>; the loop
  reads the twelve description and adjective columns only.
\<close>

type_synonym row = "string \<Rightarrow> cell"

text \<open>The inner dicts have fixed keys: \<open>"all_tokens"\<close>, \<open>"adjectives"\<close>, \<open>"nouns"\<close>, and
  \<open>"cells"\<close>, \<open>"valid_cells"\<close>.\<close>

record image_result =
  r_all_tokens :: "string list"
  r_adjectives :: "string list"
  r_nouns :: "string list"

record adj_stat =
  cells :: nat
  valid_cells :: nat

record state =
  image_results :: "(string \<times> image_result) list"
  all_tokens :: "string list"
  all_adjectives :: "string list"
  all_nouns :: "string list"
  adj_stats :: "(string \<times> adj_stat) list"
  overall_adj_cells :: nat
  overall_adj_valid_cells :: nat

text \<open>Lines 13 to 22: the column labels of the frame.\<close>

definition columns :: "string list" where
  "columns =
     [''Timestamp'', ''PROLIFIC_ID'',
      ''Description_1'', ''Adjectives_1'',
      ''Description_2'', ''Adjectives_2'',
      ''Description_3'', ''Adjectives_3'',
      ''Description_4'', ''Adjectives_4'',
      ''Description_5'', ''Adjectives_5'',
      ''Description_6'', ''Adjectives_6'',
      ''Familiarity_AI_Gen'', ''AI_Art_Real'', ''Education'']"

text \<open>The f-string \<open>f"Image_{i+1}"\<close>.\<close>

definition image_name :: "nat \<Rightarrow> string" where
  "image_name i = ''Image_'' @ str_nat (i + 1)"

definition image_pairs :: "(string \<times> string) list" where
  "image_pairs =
     map (\<lambda>i. (''Description_'' @ str_nat i, ''Adjectives_'' @ str_nat i)) [1..<7]"

definition init_state :: state where
  "init_state =
     \<lparr> image_results =
         dict_update []
           (map (\<lambda>i. (image_name i,
                       \<lparr> r_all_tokens = [], r_adjectives = [], r_nouns = [] \<rparr>)) [0..<6]),
       all_tokens = [], all_adjectives = [], all_nouns = [],
       adj_stats =
         dict_update []
           (map (\<lambda>i. (''Adjectives_'' @ str_nat i, \<lparr> cells = 0, valid_cells = 0 \<rparr>)) [1..<7]),
       overall_adj_cells = 0,
       overall_adj_valid_cells = 0 \<rparr>"

section \<open>The row loop\<close>

text \<open>Lines 85 to 104: the adjective cell of one stimulus, when it is not missing.\<close>

definition process_adjectives ::
  "annotator \<Rightarrow> row \<Rightarrow> nat \<Rightarrow> string \<Rightarrow> state \<Rightarrow> error + state" where
  "process_adjectives nlp row i adj_col st =
     bind_err (dict_modify (adj_stats st) adj_col (\<lambda>s. s\<lparr>cells := cells s + 1\<rparr>)) (\<lambda>stats1.
     let candidate_adjs = extract_adjectives (row adj_col);
         valid_adjs = filter_adjectives nlp candidate_adjs
     in
     bind_err (if valid_adjs \<noteq> []
               then dict_modify stats1 adj_col (\<lambda>s. s\<lparr>valid_cells := valid_cells s + 1\<rparr>)
               else Inr stats1) (\<lambda>stats2.
     bind_err (dict_modify (image_results st) (image_name i)
                 (\<lambda>r. r\<lparr>r_adjectives := r_adjectives r @ valid_adjs\<rparr>)) (\<lambda>results.
     let st1 = st\<lparr>adj_stats := stats2, image_results := results\<rparr>
     in
     Inr (if i \<noteq> 1
          then st1\<lparr>overall_adj_cells := overall_adj_cells st1 + 1,
                   overall_adj_valid_cells :=
                     (if valid_adjs \<noteq> [] then overall_adj_valid_cells st1 + 1
                      else overall_adj_valid_cells st1),
                   all_adjectives := all_adjectives st1 @ valid_adjs\<rparr>
          else st1))))"

text \<open>Lines 76 to 109: the body of the inner loop, for stimulus index \<open>i\<close>.\<close>

definition process_pair ::
  "annotator \<Rightarrow> row \<Rightarrow> nat \<Rightarrow> string \<Rightarrow> string \<Rightarrow> state \<Rightarrow> error + state" where
  "process_pair nlp row i desc_col adj_col st =
     (let tokens = tokenize_description nlp (row desc_col)
      in
      bind_err (dict_modify (image_results st) (image_name i)
                  (\<lambda>r. r\<lparr>r_all_tokens := r_all_tokens r @ tokens\<rparr>)) (\<lambda>results1.
      let nouns = extract_nouns nlp (row desc_col)
      in
      bind_err (dict_modify results1 (image_name i)
                  (\<lambda>r. r\<lparr>r_nouns := r_nouns r @ nouns\<rparr>)) (\<lambda>results2.
      let st2 = st\<lparr>image_results := results2\<rparr>
      in
      bind_err (if row adj_col \<noteq> None then process_adjectives nlp row i adj_col st2
                else Inr st2) (\<lambda>st3.
      Inr (if i \<noteq> 1
           then st3\<lparr>all_tokens := all_tokens st3 @ tokens, all_nouns := all_nouns st3 @ nouns\<rparr>
           else st3)))))"

text \<open>
  The same pass, statement by statement: the assignments of lines 78 to 109 in their
  order, each one as a step on the whole state, guarded as in the source. The points of
  a pass are the states after the first \<open>j\<close> steps.
\<close>

fun run_steps :: "('s \<Rightarrow> error + 's) list \<Rightarrow> 's \<Rightarrow> error + 's" where
  "run_steps [] st = Inr st"
| "run_steps (f # fs) st = bind_err (f st) (run_steps fs)"

definition pass_steps ::
  "annotator \<Rightarrow> row \<Rightarrow> nat \<Rightarrow> string \<Rightarrow> string \<Rightarrow> (state \<Rightarrow> error + state) list" where
  "pass_steps nlp row i desc_col adj_col =
     (let tokens = tokenize_description nlp (row desc_col);
          nouns = extract_nouns nlp (row desc_col);
          present = (row adj_col \<noteq> None);
          valid_adjs = filter_adjectives nlp (extract_adjectives (row adj_col))
      in
      [\<comment> \<open>line 78\<close>
       (\<lambda>st. bind_err (dict_modify (image_results st) (image_name i)
                         (\<lambda>r. r\<lparr>r_all_tokens := r_all_tokens r @ tokens\<rparr>))
               (\<lambda>results. Inr (st\<lparr>image_results := results\<rparr>))),
       \<comment> \<open>line 82\<close>
       (\<lambda>st. bind_err (dict_modify (image_results st) (image_name i)
                         (\<lambda>r. r\<lparr>r_nouns := r_nouns r @ nouns\<rparr>))
               (\<lambda>results. Inr (st\<lparr>image_results := results\<rparr>))),
       \<comment> \<open>line 87\<close>
       (\<lambda>st. if present
             then bind_err (dict_modify (adj_stats st) adj_col (\<lambda>s. s\<lparr>cells := cells s + 1\<rparr>))
                    (\<lambda>stats. Inr (st\<lparr>adj_stats := stats\<rparr>))
             else Inr st),
       \<comment> \<open>line 95\<close>
       (\<lambda>st. if present \<and> valid_adjs \<noteq> []
             then bind_err (dict_modify (adj_stats st) adj_col
                              (\<lambda>s. s\<lparr>valid_cells := valid_cells s + 1\<rparr>))
                    (\<lambda>stats. Inr (st\<lparr>adj_stats := stats\<rparr>))
             else Inr st),
       \<comment> \<open>line 97\<close>
       (\<lambda>st. if present
             then bind_err (dict_modify (image_results st) (image_name i)
                              (\<lambda>r. r\<lparr>r_adjectives := r_adjectives r @ valid_adjs\<rparr>))
                    (\<lambda>results. Inr (st\<lparr>image_results := results\<rparr>))
             else Inr st),
       \<comment> \<open>line 101\<close>
       (\<lambda>st. Inr (if present \<and> i \<noteq> 1
                  then st\<lparr>overall_adj_cells := overall_adj_cells st + 1\<rparr> else st)),
       \<comment> \<open>line 103\<close>
       (\<lambda>st. Inr (if present \<and> i \<noteq> 1 \<and> valid_adjs \<noteq> []
                  then st\<lparr>overall_adj_valid_cells := overall_adj_valid_cells st + 1\<rparr> else st)),
       \<comment> \<open>line 104\<close>
       (\<lambda>st. Inr (if present \<and> i \<noteq> 1
                  then st\<lparr>all_adjectives := all_adjectives st @ valid_adjs\<rparr> else st)),
       \<comment> \<open>line 108\<close>
       (\<lambda>st. Inr (if i \<noteq> 1 then st\<lparr>all_tokens := all_tokens st @ tokens\<rparr> else st)),
       \<comment> \<open>line 109\<close>
       (\<lambda>st. Inr (if i \<noteq> 1 then st\<lparr>all_nouns := all_nouns st @ nouns\<rparr> else st))])"

fun process_row :: "annotator \<Rightarrow> row \<Rightarrow> (nat \<times> string \<times> string) list \<Rightarrow> state \<Rightarrow> error + state" where
  "process_row nlp row [] st = Inr st"
| "process_row nlp row ((i, desc_col, adj_col) # ps) st =
     bind_err (process_pair nlp row i desc_col adj_col st) (process_row nlp row ps)"

fun process_rows :: "annotator \<Rightarrow> row list \<Rightarrow> state \<Rightarrow> error + state" where
  "process_rows nlp [] st = Inr st"
| "process_rows nlp (row # rows) st =
     bind_err (process_row nlp row (enumerate_list image_pairs) st) (process_rows nlp rows)"

text \<open>Lines 74 to 109, from the initial state.\<close>

definition main_loop :: "annotator \<Rightarrow> row list \<Rightarrow> error + state" where
  "main_loop nlp data = process_rows nlp data init_state"


section \<open>Frequency tables and the exported table\<close>

record image_frequency =
  description_word_freq :: "(string \<times> nat) list"
  adjective_freq :: "(string \<times> nat) list"
  noun_freq :: "(string \<times> nat) list"

text \<open>Lines 112 to 119: one entry for each entry of \<open>image_results\<close>, in its order.\<close>

definition image_frequencies :: "state \<Rightarrow> (string \<times> image_frequency) list" where
  "image_frequencies st =
     dict_update []
       (map (\<lambda>(image, results).
               (image,
                \<lparr> description_word_freq = Counter (r_all_tokens results),
                  adjective_freq = Counter (r_adjectives results),
                  noun_freq = Counter (r_nouns results) \<rparr>))
          (image_results st))"

definition overall_description_word_freq :: "state \<Rightarrow> (string \<times> nat) list" where
  "overall_description_word_freq st = Counter (all_tokens st)"

definition overall_adjective_freq :: "state \<Rightarrow> (string \<times> nat) list" where
  "overall_adjective_freq st = Counter (all_adjectives st)"

definition overall_noun_freq :: "state \<Rightarrow> (string \<times> nat) list" where
  "overall_noun_freq st = Counter (all_nouns st)"

text \<open>Lines 140 to 144.\<close>

definition max_rows :: "state \<Rightarrow> error + nat" where
  "max_rows st =
     bind_err
       (py_max (map (\<lambda>(image, freq).
                       max (length (description_word_freq freq))
                         (max (length (adjective_freq freq)) (length (noun_freq freq))))
                  (image_frequencies st)))
       (\<lambda>m. Inr (max m (max (length (overall_description_word_freq st))
                           (max (length (overall_adjective_freq st))
                              (length (overall_noun_freq st))))))"

text \<open>A value of the exported table: a word or the empty placeholder, or a count.\<close>

datatype csv_val = Str string | Num nat

text \<open>\<open>xs + [""] * k\<close>; a negative \<open>k\<close> adds nothing, as the truncated difference does.\<close>

definition pad :: "csv_val list \<Rightarrow> nat \<Rightarrow> csv_val list" where
  "pad xs k = xs @ replicate k (Str [])"

text \<open>Lines 148 to 158: the six columns of the image named \<open>img\<close>. Each is padded by the length of
  the ranked table \<open>most_common(max_rows)\<close> that it lists.\<close>

definition image_columns ::
  "string \<Rightarrow> image_frequency \<Rightarrow> nat \<Rightarrow> (string \<times> csv_val list) list" where
  "image_columns img freq n =
     (let free = most_common n (description_word_freq freq);
          adj = most_common n (adjective_freq freq);
          noun = most_common n (noun_freq freq)
      in [(img @ ''_Free_Word'', pad (map (\<lambda>(w, f). Str w) free) (n - length free)),
          (img @ ''_Free_Freq'', pad (map (\<lambda>(w, f). Num f) free) (n - length free)),
          (img @ ''_Adj_Word'', pad (map (\<lambda>(w, f). Str w) adj) (n - length adj)),
          (img @ ''_Adj_Freq'', pad (map (\<lambda>(w, f). Num f) adj) (n - length adj)),
          (img @ ''_Noun_Word'', pad (map (\<lambda>(w, f). Str w) noun) (n - length noun)),
          (img @ ''_Noun_Freq'', pad (map (\<lambda>(w, f). Num f) noun) (n - length noun))])"

text \<open>Lines 160 to 167: the six overall columns. Each is padded by the length of the
  counter itself.\<close>

definition overall_columns :: "state \<Rightarrow> nat \<Rightarrow> (string \<times> csv_val list) list" where
  "overall_columns st n =
     [(''Overall_Free_Word'',
         pad (map (\<lambda>(w, f). Str w) (most_common n (overall_description_word_freq st)))
           (n - length (overall_description_word_freq st))),
      (''Overall_Free_Freq'',
         pad (map (\<lambda>(w, f). Num f) (most_common n (overall_description_word_freq st)))
           (n - length (overall_description_word_freq st))),
      (''Overall_Adj_Word'',
         pad (map (\<lambda>(w, f). Str w) (most_common n (overall_adjective_freq st)))
           (n - length (overall_adjective_freq st))),
      (''Overall_Adj_Freq'',
         pad (map (\<lambda>(w, f). Num f) (most_common n (overall_adjective_freq st)))
           (n - length (overall_adjective_freq st))),
      (''Overall_Noun_Word'',
         pad (map (\<lambda>(w, f). Str w) (most_common n (overall_noun_freq st)))
           (n - length (overall_noun_freq st))),
      (''Overall_Noun_Freq'',
         pad (map (\<lambda>(w, f). Num f) (most_common n (overall_noun_freq st)))
           (n - length (overall_noun_freq st)))]"

text \<open>Lines 146 to 167.\<close>

definition csv_data :: "state \<Rightarrow> nat \<Rightarrow> (string \<times> csv_val list) list" where
  "csv_data st n =
     dict_update
       (fold (\<lambda>(image, freq) d. dict_update d (image_columns image freq n))
          (image_frequencies st) [])
       (overall_columns st n)"

text \<open>
  \<open>pd.DataFrame(d)\<close> of a dict of lists raises \<open>ValueError\<close> unless all the lists have one
  length, which is then the number of rows of the frame and of the file written from it.
\<close>

definition DataFrame :: "(string \<times> csv_val list) list \<Rightarrow> error + (string \<times> csv_val list) list" where
  "DataFrame d =
     (case d of
        [] \<Rightarrow> Inr []
      | (k, col) # rest \<Rightarrow>
          if list_all (\<lambda>(k', col'). length col' = length col) rest then Inr d
          else Inl ValueError)"

definition num_rows :: "(string \<times> csv_val list) list \<Rightarrow> nat" where
  "num_rows df = (case df of [] \<Rightarrow> 0 | (k, col) # rest \<Rightarrow> length col)"

text \<open>The whole script after loading: the final state and the exported frame.\<close>

definition main :: "annotator \<Rightarrow> row list \<Rightarrow> error + (state \<times> (string \<times> csv_val list) list)" where
  "main nlp data =
     bind_err (main_loop nlp data) (\<lambda>st.
     bind_err (max_rows st) (\<lambda>n.
     bind_err (DataFrame (csv_data st n)) (\<lambda>csv_df.
     Inr (st, csv_df))))"

section \<open>Auxiliary notions for the statements\<close>

text \<open>
  The splitter in the words of the specification (section 4.2): skip a run of commas,
  semicolons and white space, take the longest substring free of them, and go on.
\<close>

function spec_split :: "string \<Rightarrow> string list" where
  "spec_split s =
     (case dropWhile is_delim s of
        [] \<Rightarrow> []
      | c # cs \<Rightarrow>
          (c # takeWhile (\<lambda>x. \<not> is_delim x) cs) # spec_split (dropWhile (\<lambda>x. \<not> is_delim x) cs))"
  by pat_completeness auto
termination
proof (relation "measure length")
  show "wf (measure length)" by simp
next
  fix s :: string and c cs
  assume a: "dropWhile is_delim s = c # cs"
  have "length (dropWhile (\<lambda>x. \<not> is_delim x) cs) \<le> length cs"
    by (rule length_dropWhile_le)
  also have "length cs < length (dropWhile is_delim s)"
    by (simp add: a)
  also have "\<dots> \<le> length s"
    by (rule length_dropWhile_le)
  finally show "(dropWhile (\<lambda>x. \<not> is_delim x) cs, s) \<in> measure length"
    by simp
qed

text \<open>The position of the first occurrence of \<open>x\<close> in \<open>xs\<close> (\<open>length xs\<close> if there is none).\<close>

definition first_index :: "'a list \<Rightarrow> 'a \<Rightarrow> nat" where
  "first_index xs x = length (takeWhile (\<lambda>y. y \<noteq> x) xs)"

text \<open>The keys that lines 63 and 67 create, which the loop never changes.\<close>

definition keys_ok :: "state \<Rightarrow> bool" where
  "keys_ok st \<longleftrightarrow>
     map fst (image_results st)
       = [''Image_1'', ''Image_2'', ''Image_3'', ''Image_4'', ''Image_5'', ''Image_6'']
     \<and> map fst (adj_stats st)
       = [''Adjectives_1'', ''Adjectives_2'', ''Adjectives_3'',
          ''Adjectives_4'', ''Adjectives_5'', ''Adjectives_6'']"

text \<open>The relations between the counters of lines 67 to 71.\<close>

definition counters_ok :: "state \<Rightarrow> bool" where
  "counters_ok st \<longleftrightarrow>
     list_all (\<lambda>(col, s). valid_cells s \<le> cells s) (adj_stats st)
     \<and> overall_adj_valid_cells st \<le> overall_adj_cells st
     \<and> overall_adj_cells st
         = sum_list (map (\<lambda>(col, s). cells s)
                       (filter (\<lambda>(col, s). col \<noteq> ''Adjectives_2'') (adj_stats st)))"

text \<open>The two inequalities between the counters of lines 67 to 71.\<close>

definition inequalities_ok :: "state \<Rightarrow> bool" where
  "inequalities_ok st \<longleftrightarrow>
     list_all (\<lambda>(col, s). valid_cells s \<le> cells s) (adj_stats st)
     \<and> overall_adj_valid_cells st \<le> overall_adj_cells st"

text \<open>
  What one row adds to the entry \<open>r\<close> of an image whose description and adjective
  cells are \<open>desc\<close> and \<open>adj\<close>.
\<close>

definition image_effect :: "annotator \<Rightarrow> cell \<Rightarrow> cell \<Rightarrow> image_result \<Rightarrow> image_result" where
  "image_effect nlp desc adj r =
     \<lparr> r_all_tokens = r_all_tokens r @ tokenize_description nlp desc,
       r_adjectives = r_adjectives r @ filter_adjectives nlp (extract_adjectives adj),
       r_nouns = r_nouns r @ extract_nouns nlp desc \<rparr>"

text \<open>
  The net effect of one pass of the loop body (lines 76 to 109) on a state in which
  \<open>image_results\<close> holds the entry \<open>r\<close> for the image of index \<open>i\<close> and \<open>adj_stats\<close> holds the
  entry \<open>s\<close> for the adjective column.
\<close>

definition pair_effect ::
  "annotator \<Rightarrow> row \<Rightarrow> nat \<Rightarrow> string \<Rightarrow> string \<Rightarrow> image_result \<Rightarrow> adj_stat \<Rightarrow> state \<Rightarrow> state" where
  "pair_effect nlp row i desc_col adj_col r s st =
     (let tokens = tokenize_description nlp (row desc_col);
          nouns = extract_nouns nlp (row desc_col);
          adjs = filter_adjectives nlp (extract_adjectives (row adj_col));
          seen = (if row adj_col = None then 0 else 1);
          valid = (if adjs = [] then 0 else 1)
      in \<lparr> image_results =
             AList.update (image_name i) (image_effect nlp (row desc_col) (row adj_col) r)
               (image_results st),
           all_tokens = all_tokens st @ (if i \<noteq> 1 then tokens else []),
           all_adjectives = all_adjectives st @ (if i \<noteq> 1 then adjs else []),
           all_nouns = all_nouns st @ (if i \<noteq> 1 then nouns else []),
           adj_stats =
             (if row adj_col = None then adj_stats st
              else AList.update adj_col
                     \<lparr> cells = cells s + 1, valid_cells = valid_cells s + valid \<rparr>
                     (adj_stats st)),
           overall_adj_cells = overall_adj_cells st + (if i \<noteq> 1 then seen else 0),
           overall_adj_valid_cells = overall_adj_valid_cells st + (if i \<noteq> 1 then valid else 0) \<rparr>)"

text \<open>The frequency tables that the report lists: three for each image, then the three
  overall ones.\<close>

definition tables :: "state \<Rightarrow> (string \<times> nat) list list" where
  "tables st =
     concat (map (\<lambda>(image, freq).
                    [description_word_freq freq, adjective_freq freq, noun_freq freq])
               (image_frequencies st))
     @ [overall_description_word_freq st, overall_adjective_freq st, overall_noun_freq st]"

text \<open>
  The columns of the exported table in the words of the specification (section 4.8): the
  whole table ranked by descending count, ties in the order of the table, then empty
  strings up to \<open>n\<close> rows.
\<close>

definition spec_ranked :: "(string \<times> nat) list \<Rightarrow> (string \<times> nat) list" where
  "spec_ranked t = sort_key (\<lambda>item. - int (snd item)) t"

definition spec_word_column :: "nat \<Rightarrow> (string \<times> nat) list \<Rightarrow> csv_val list" where
  "spec_word_column n t = map (\<lambda>(w, f). Str w) (spec_ranked t) @ replicate (n - length t) (Str [])"

definition spec_freq_column :: "nat \<Rightarrow> (string \<times> nat) list \<Rightarrow> csv_val list" where
  "spec_freq_column n t = map (\<lambda>(w, f). Num f) (spec_ranked t) @ replicate (n - length t) (Str [])"

text \<open>The overall aggregates of lines 64, 70 and 71.\<close>

definition overall_aggregates :: "state \<Rightarrow> string list \<times> string list \<times> string list \<times> nat \<times> nat" where
  "overall_aggregates st =
     (all_tokens st, all_adjectives st, all_nouns st, overall_adj_cells st,
      overall_adj_valid_cells st)"

text \<open>Two rows that differ at most in the two cells of the excluded stimulus: they agree
  in every other column of the frame.\<close>

definition agree_off_2 :: "row \<Rightarrow> row \<Rightarrow> bool" where
  "agree_off_2 row row' \<longleftrightarrow>
     list_all (\<lambda>c. row c = row' c)
       (removeAll ''Description_2'' (removeAll ''Adjectives_2'' columns))"

text \<open>
  A small annotator to run the functions on: it splits at blanks, takes each word for
  its own lemma, and tags it from a fixed word list. The theorems below hold for every
  annotator; this one only instantiates them.
\<close>

definition sample_lexicon :: "(string \<times> string \<times> bool) list" where
  "sample_lexicon =
     [(''a'', ''DET'', True), (''the'', ''DET'', True), (''very'', ''ADV'', True),
      (''beautiful'', ''ADJ'', False), (''bright'', ''ADJ'', False), (''red'', ''ADJ'', False),
      (''dark'', ''ADJ'', False), (''house'', ''NOUN'', False), (''tree'', ''NOUN'', False),
      (''robot'', ''NOUN'', False)]"

definition is_letter :: "char \<Rightarrow> bool" where
  "is_letter c = (let n = (of_char c :: nat) in (65 \<le> n \<and> n \<le> 90) \<or> (97 \<le> n \<and> n \<le> 122))"

definition sample_nlp :: annotator where
  "sample_nlp text =
     map (\<lambda>w. \<lparr> tok_lemma = w,
                tok_pos = (case map_of sample_lexicon w of None \<Rightarrow> ''X'' | Some (p, stop) \<Rightarrow> p),
                is_alpha = list_all is_letter w,
                is_stop = (case map_of sample_lexicon w of None \<Rightarrow> False | Some (p, stop) \<Rightarrow> stop) \<rparr>)
       (filter (\<lambda>w. w \<noteq> []) (re_split_delims text))"


section \<open>Missing fields\<close>

text \<open>
  C8. On a missing (NA) field the description tokenizer, the noun extractor and the
  adjective splitter each return the empty list; the missing branch calls nothing that
  could raise.
\<close>

theorem missing_field_empty:
  "tokenize_description nlp None = []
   \<and> extract_nouns nlp None = []
   \<and> extract_adjectives None = []"
  by (simp add: tokenize_description_def extract_nouns_def extract_adjectives_def)

section \<open>The normaliser\<close>

declare spec_split.simps [simp del]
declare re_split_delims.simps [simp del]

lemma lower_char_idem: "lower_char (lower_char c) = lower_char c"
  unfolding lower_char_def Let_def by auto

lemma lower_char_space: "lower_char CHR '' '' = CHR '' ''"
  by (simp add: lower_char_def)

lemma is_space_space: "is_space CHR '' ''"
  by (simp add: is_space_def)

lemma set_re_sub_spaces: "set (re_sub_spaces s) \<subseteq> insert CHR '' '' (set s)"
proof (induction s rule: re_sub_spaces.induct)
  case 1 show ?case by simp
next
  case (2 c cs)
  have "set (dropWhile is_space cs) \<subseteq> set cs" by (rule set_dropWhileD[THEN subsetI])
  with 2 show ?case by auto
qed

lemma set_strip: "set (strip s) \<subseteq> set s"
  unfolding strip_def by (auto dest!: set_dropWhileD)

lemma dropWhile_hd: "dropWhile P s = [] \<or> \<not> P (hd (dropWhile P s))"
  by (metis hd_dropWhile)

lemma strip_hd: "strip s \<noteq> [] \<Longrightarrow> \<not> is_space (hd (strip s))"
proof -
  assume ne: "strip s \<noteq> []"
  let ?t = "dropWhile is_space s"
  have t: "?t \<noteq> []"
  proof
    assume a: "?t = []"
    have "strip s = rev (dropWhile is_space (rev ?t))" by (simp only: strip_def)
    also have "\<dots> = []" by (simp only: a rev.simps dropWhile.simps)
    finally show False using ne by simp
  qed
  have "strip s = rev (dropWhile is_space (rev ?t))" by (simp add: strip_def)
  have "\<exists>u. ?t = strip s @ u"
    unfolding strip_def
    by (metis rev_append rev_rev_ident takeWhile_dropWhile_id)
  then obtain u where u: "?t = strip s @ u" by blast
  with ne have "hd ?t = hd (strip s)" by simp
  moreover have "\<not> is_space (hd ?t)" using t hd_dropWhile by metis
  ultimately show ?thesis by simp
qed

lemma strip_last: "strip s \<noteq> [] \<Longrightarrow> \<not> is_space (last (strip s))"
proof -
  assume ne: "strip s \<noteq> []"
  let ?r = "dropWhile is_space (rev (dropWhile is_space s))"
  have r: "?r \<noteq> []" using ne by (simp add: strip_def)
  have "last (strip s) = hd ?r" using r by (simp add: strip_def last_rev)
  moreover have "\<not> is_space (hd ?r)" using r hd_dropWhile by metis
  ultimately show ?thesis by simp
qed

lemma strip_id: "s = [] \<or> (\<not> is_space (hd s) \<and> \<not> is_space (last s)) \<Longrightarrow> strip s = s"
proof (cases s)
  case Nil then show ?thesis by (simp add: strip_def)
next
  case (Cons a as)
  assume "s = [] \<or> (\<not> is_space (hd s) \<and> \<not> is_space (last s))"
  with Cons have h: "\<not> is_space (hd s)" and l: "\<not> is_space (last s)" by auto
  from h Cons have 1: "dropWhile is_space s = s" by simp
  from Cons obtain b bs where bs: "rev s = b # bs" by (cases "rev s") auto
  then have "b = last s" by (metis hd_rev list.sel(1))
  with l have nb: "\<not> is_space b" by simp
  have 2: "dropWhile is_space (rev s) = rev s" unfolding bs using nb by simp
  show ?thesis by (simp add: strip_def 1 2)
qed

lemma re_sub_spaces_Nil: "re_sub_spaces s = [] \<longleftrightarrow> s = []"
  by (cases s) auto

lemma re_sub_spaces_hd: "s \<noteq> [] \<Longrightarrow> \<not> is_space (hd s) \<Longrightarrow> hd (re_sub_spaces s) = hd s"
  by (cases s) auto

lemma re_sub_spaces_last:
  "s \<noteq> [] \<Longrightarrow> \<not> is_space (last s) \<Longrightarrow> \<not> is_space (last (re_sub_spaces s))"
proof (induction s rule: re_sub_spaces.induct)
  case 1 then show ?case by simp
next
  case (2 c cs)
  show ?case
  proof (cases "is_space c")
    case True
    let ?d = "dropWhile is_space cs"
    from 2(4) True have cs: "cs \<noteq> []" by auto
    have dne: "?d \<noteq> []"
    proof
      assume "?d = []"
      then have "\<forall>x\<in>set cs. is_space x" by simp
      with cs have "is_space (last cs)" by simp
      with 2(4) cs show False by simp
    qed
    have "\<exists>u. cs = u @ ?d" by (metis takeWhile_dropWhile_id)
    with dne have "last ?d = last cs" by (metis last_appendR)
    with 2(4) cs have "\<not> is_space (last ?d)" by simp
    with 2(1)[OF True dne] have "\<not> is_space (last (re_sub_spaces ?d))" by simp
    moreover have "re_sub_spaces ?d \<noteq> []" using dne re_sub_spaces_Nil by blast
    ultimately show ?thesis using True by (simp del: dropWhile_eq_Nil_conv)
  next
    case False
    show ?thesis
    proof (cases "cs = []")
      case True with False show ?thesis by simp
    next
      case ne: False
      with 2(4) have "\<not> is_space (last cs)" by simp
      with 2(2)[OF False ne] have "\<not> is_space (last (re_sub_spaces cs))" by simp
      with False ne show ?thesis by (simp add: re_sub_spaces_Nil)
    qed
  qed
qed

lemma re_sub_spaces_dropWhile:
  "s = [] \<or> \<not> is_space (hd s) \<Longrightarrow> dropWhile is_space (re_sub_spaces s) = re_sub_spaces s"
  by (cases s) auto

lemma re_sub_spaces_idem: "re_sub_spaces (re_sub_spaces s) = re_sub_spaces s"
proof (induction s rule: re_sub_spaces.induct)
  case 1 show ?case by simp
next
  case (2 c cs)
  show ?case
  proof (cases "is_space c")
    case True
    let ?d = "dropWhile is_space cs"
    have "?d = [] \<or> \<not> is_space (hd ?d)" by (rule dropWhile_hd)
    then have "dropWhile is_space (re_sub_spaces ?d) = re_sub_spaces ?d"
      by (rule re_sub_spaces_dropWhile)
    with True 2(1) show ?thesis by (simp add: is_space_space)
  next
    case False with 2(2) show ?thesis by simp
  qed
qed

lemma normalize_text_clean:
  "normalize_text s = [] \<or> (\<not> is_space (hd (normalize_text s)) \<and> \<not> is_space (last (normalize_text s)))"
proof (cases "strip (lower s) = []")
  case True then show ?thesis by (simp add: normalize_text_def)
next
  case False
  from strip_hd[OF False] strip_last[OF False] False
  show ?thesis
    by (simp add: normalize_text_def re_sub_spaces_hd re_sub_spaces_last)
qed

lemma lower_normalize_text: "lower (normalize_text s) = normalize_text s"
proof -
  have "set (normalize_text s) \<subseteq> insert CHR '' '' (lower_char ` set s)"
    unfolding normalize_text_def using set_re_sub_spaces[of "strip (lower s)"] set_strip[of "lower s"]
    by (auto simp: lower_def)
  then have "\<forall>c\<in>set (normalize_text s). lower_char c = c"
    by (auto simp: lower_char_space lower_char_idem)
  then show ?thesis by (simp add: lower_def map_idI)
qed

text \<open>
  C9. The text normaliser of line 29 (lower case, strip, collapse each run of white space
  to one space) is idempotent.
\<close>

theorem normalize_text_idempotent: "normalize_text (normalize_text s) = normalize_text s"
proof -
  have "normalize_text (normalize_text s) = re_sub_spaces (strip (normalize_text s))"
    by (simp add: normalize_text_def[of "normalize_text s"] lower_normalize_text)
  also have "strip (normalize_text s) = normalize_text s"
    by (rule strip_id) (rule normalize_text_clean)
  also have "re_sub_spaces (normalize_text s) = normalize_text s"
    by (simp add: normalize_text_def re_sub_spaces_idem)
  finally show ?thesis .
qed


section \<open>The splitter\<close>

lemma spec_split_dropWhile: "spec_split (dropWhile is_delim s) = spec_split s"
  by (subst spec_split.simps, subst (2) spec_split.simps) simp

lemma spec_split_Nil: "spec_split [] = []"
  by (subst spec_split.simps) simp

lemma spec_split_delim: "is_delim c \<Longrightarrow> spec_split (c # cs) = spec_split (dropWhile is_delim cs)"
  by (subst spec_split.simps, subst (2) spec_split.simps) simp

lemma spec_split_word:
  "\<not> is_delim c \<Longrightarrow>
   spec_split (c # cs)
     = (c # takeWhile (\<lambda>x. \<not> is_delim x) cs) # spec_split (dropWhile (\<lambda>x. \<not> is_delim x) cs)"
  by (subst spec_split.simps) simp

lemma re_split_delims_ne: "re_split_delims s \<noteq> []"
  by (induction s rule: re_split_delims.induct) (auto simp: re_split_delims.simps split: list.splits)

lemma re_split_delims_spec:
  "filter (\<lambda>p. p \<noteq> []) (re_split_delims s) = spec_split s
   \<and> hd (re_split_delims s) = takeWhile (\<lambda>x. \<not> is_delim x) s
   \<and> filter (\<lambda>p. p \<noteq> []) (tl (re_split_delims s)) = spec_split (dropWhile (\<lambda>x. \<not> is_delim x) s)"
proof (induction s rule: re_split_delims.induct)
  case 1
  show ?case by (simp add: re_split_delims.simps spec_split_Nil)
next
  case (2 c cs)
  show ?case
  proof (cases "is_delim c")
    case True
    with 2(1) show ?thesis
      by (simp add: re_split_delims.simps spec_split_delim)
  next
    case False
    obtain p ps where pps: "re_split_delims cs = p # ps"
      using re_split_delims_ne[of cs] by (cases "re_split_delims cs") auto
    from 2(2)[OF False] pps
    have p: "p = takeWhile (\<lambda>x. \<not> is_delim x) cs"
      and ps: "filter (\<lambda>p. p \<noteq> []) ps = spec_split (dropWhile (\<lambda>x. \<not> is_delim x) cs)"
      by simp_all
    from False pps p ps show ?thesis
      by (simp add: re_split_delims.simps spec_split_word)
  qed
qed

lemma re_split_delims_pieces:
  "p \<in> set (re_split_delims s) \<Longrightarrow> c \<in> set p \<Longrightarrow> \<not> is_delim c"
proof (induction s arbitrary: p rule: re_split_delims.induct)
  case 1
  then show ?case by (simp add: re_split_delims.simps)
next
  case (2 d ds)
  show ?case
  proof (cases "is_delim d")
    case True
    with 2(1)[OF True] 2(3,4) show ?thesis
      by (auto simp: re_split_delims.simps)
  next
    case False
    obtain q qs where qqs: "re_split_delims ds = q # qs"
      using re_split_delims_ne[of ds] by (cases "re_split_delims ds") auto
    with False 2(3) have "p = d # q \<or> p \<in> set qs" by (simp add: re_split_delims.simps)
    then show ?thesis
    proof
      assume "p = d # q"
      with 2(4) have "c = d \<or> c \<in> set q" by auto
      then show ?thesis using False 2(2)[OF False, of q] qqs by auto
    next
      assume "p \<in> set qs"
      then show ?thesis using 2(2)[OF False, of p] qqs 2(4) by auto
    qed
  qed
qed

lemma strip_piece: "\<forall>c\<in>set p. \<not> is_delim c \<Longrightarrow> strip p = p"
proof (rule strip_id, cases p)
  case Nil then show "p = [] \<or> (\<not> is_space (hd p) \<and> \<not> is_space (last p))" by simp
next
  case (Cons a as)
  assume nd: "\<forall>c\<in>set p. \<not> is_delim c"
  from Cons have "hd p \<in> set p" "last p \<in> set p" by auto
  with nd have "\<not> is_delim (hd p)" "\<not> is_delim (last p)" by blast+
  then show "p = [] \<or> (\<not> is_space (hd p) \<and> \<not> is_space (last p))" by (simp add: is_delim_def)
qed

lemma extract_adjectives_spec: "extract_adjectives (Some s) = spec_split (normalize_text s)"
proof -
  let ?ps = "re_split_delims (normalize_text s)"
  have id: "\<forall>p\<in>set ?ps. strip p = p"
    using re_split_delims_pieces strip_piece by blast
  then have "filter (\<lambda>item. strip item \<noteq> []) ?ps = filter (\<lambda>p. p \<noteq> []) ?ps"
    by (auto intro: filter_cong)
  moreover have "map strip (filter (\<lambda>p. p \<noteq> []) ?ps) = filter (\<lambda>p. p \<noteq> []) ?ps"
    by (rule map_idI) (use id in auto)
  ultimately show ?thesis
    by (simp add: extract_adjectives_def re_split_delims_spec)
qed

lemma spec_split_pieces:
  "p \<in> set (spec_split s) \<Longrightarrow> p \<noteq> [] \<and> (\<forall>c\<in>set p. \<not> is_delim c)"
proof -
  assume "p \<in> set (spec_split s)"
  then have "p \<in> set (filter (\<lambda>p. p \<noteq> []) (re_split_delims s))"
    by (simp only: re_split_delims_spec)
  then show ?thesis using re_split_delims_pieces by auto
qed

lemma extract_adjectives_pieces:
  "p \<in> set (extract_adjectives (Some s)) \<Longrightarrow> p \<noteq> [] \<and> (\<forall>c\<in>set p. \<not> is_delim c)"
  by (simp only: extract_adjectives_spec) (rule spec_split_pieces)

text \<open>
  C6. On a field that is present, \<open>extract_adjectives\<close> returns what the specification's
  splitter returns on the normalised field: the maximal substrings free of commas,
  semicolons and white space, in their order, each one non-empty, duplicates kept. On a
  string that is already normalised this is the split of the string itself. The field
  \<open>bright, colorful;  vivid\<close> gives \<open>bright\<close>, \<open>colorful\<close>, \<open>vivid\<close>; a repeated word is
  kept twice; the empty field gives the empty list.
\<close>

theorem extract_adjectives_splits:
  "extract_adjectives (Some s) = spec_split (normalize_text s)
   \<and> (normalize_text s = s \<longrightarrow> extract_adjectives (Some s) = spec_split s)
   \<and> (\<forall>p\<in>set (extract_adjectives (Some s)). p \<noteq> [] \<and> (\<forall>c\<in>set p. \<not> is_delim c))
   \<and> extract_adjectives (Some ''bright, colorful;  vivid'') = [''bright'', ''colorful'', ''vivid'']
   \<and> extract_adjectives (Some ''red, dark red'') = [''red'', ''dark'', ''red'']
   \<and> extract_adjectives (Some []) = []"
proof -
  have 1: "extract_adjectives (Some s) = spec_split (normalize_text s)"
    by (rule extract_adjectives_spec)
  have 2: "normalize_text s = s \<longrightarrow> extract_adjectives (Some s) = spec_split s"
    using 1 by simp
  have 3: "\<forall>p\<in>set (extract_adjectives (Some s)). p \<noteq> [] \<and> (\<forall>c\<in>set p. \<not> is_delim c)"
    using extract_adjectives_pieces by blast
  have 4: "extract_adjectives (Some ''bright, colorful;  vivid'') = [''bright'', ''colorful'', ''vivid'']"
    by code_simp
  have 5: "extract_adjectives (Some ''red, dark red'') = [''red'', ''dark'', ''red'']"
    by code_simp
  have 6: "extract_adjectives (Some []) = []"
    by code_simp
  from 1 2 3 4 5 6 show ?thesis by blast
qed

theorem extract_adjectives_splits_witness:
  "normalize_text ''bright, colorful; vivid'' = ''bright, colorful; vivid''
   \<and> spec_split ''bright, colorful; vivid'' = [''bright'', ''colorful'', ''vivid'']
   \<and> ''vivid'' \<in> set (extract_adjectives (Some ''bright, colorful; vivid''))"
proof -
  have n: "normalize_text ''bright, colorful; vivid'' = ''bright, colorful; vivid''"
    by code_simp
  have e: "extract_adjectives (Some ''bright, colorful; vivid'') = [''bright'', ''colorful'', ''vivid'']"
    by code_simp
  from extract_adjectives_splits [of "''bright, colorful; vivid''"] n
  have "extract_adjectives (Some ''bright, colorful; vivid'') = spec_split ''bright, colorful; vivid''"
    by blast
  with n e show ?thesis by simp
qed

section \<open>The adjective validator\<close>

lemma filter_adjectives_append:
  "filter_adjectives nlp (xs @ ys) = filter_adjectives nlp xs @ filter_adjectives nlp ys"
  by (induction xs) (simp_all add: Let_def)

lemma sample_nlp_very_beautiful:
  "sample_nlp ''very beautiful''
     = [\<lparr>tok_lemma = ''very'', tok_pos = ''ADV'', is_alpha = True, is_stop = True\<rparr>,
        \<lparr>tok_lemma = ''beautiful'', tok_pos = ''ADJ'', is_alpha = True, is_stop = False\<rparr>]"
  by code_simp

text \<open>
  C5. A candidate with at least one alphabetic token puts one string into the result of
  \<open>filter_adjectives\<close>, at its place among the other candidates' strings, if every
  alphabetic token of it is tagged ADJ: the lemmas of its alphabetic tokens joined by
  single spaces. It puts nothing there if one alphabetic token has another tag.
\<close>

theorem filter_adjectives_unit:
  assumes "\<exists>t\<in>set (nlp candidate). is_alpha t"
  shows "filter_adjectives nlp (before @ candidate # after)
           = filter_adjectives nlp before
             @ (if \<forall>t\<in>set (nlp candidate). is_alpha t \<longrightarrow> tok_pos t = ''ADJ''
                then [join '' '' (map tok_lemma (filter is_alpha (nlp candidate)))] else [])
             @ filter_adjectives nlp after"
  by (simp add: filter_adjectives_append Let_def list_all_iff)

theorem filter_adjectives_unit_witness:
  "(\<exists>t\<in>set (sample_nlp ''very beautiful''). is_alpha t)
   \<and> filter_adjectives sample_nlp ([''beautiful''] @ ''very beautiful'' # [''bright red''])
       = [''beautiful'', ''bright red'']"
proof -
  have h: "\<exists>t\<in>set (sample_nlp ''very beautiful''). is_alpha t"
    by (simp add: sample_nlp_very_beautiful)
  have "filter_adjectives sample_nlp [''beautiful''] = [''beautiful'']" by code_simp
  moreover have "filter_adjectives sample_nlp [''bright red''] = [''bright red'']" by code_simp
  ultimately show ?thesis
    using h filter_adjectives_unit [where nlp = sample_nlp and candidate = "''very beautiful''"
        and before = "[''beautiful'']" and after = "[''bright red'']"]
    by (simp add: sample_nlp_very_beautiful)
qed

lemma filter_adjectives_no_alpha:
  "list_all (\<lambda>t. \<not> is_alpha t) (nlp candidate) \<Longrightarrow>
   filter_adjectives nlp (before @ candidate # after)
     = filter_adjectives nlp before @ [[]] @ filter_adjectives nlp after"
proof -
  assume "list_all (\<lambda>t. \<not> is_alpha t) (nlp candidate)"
  then have "filter is_alpha (nlp candidate) = []"
    by (simp add: list_all_iff filter_empty_conv)
  then show ?thesis
    by (simp add: filter_adjectives_append Let_def)
qed

text \<open>
  C1. The specification rejects a candidate with no alphabetic token. The code accepts
  it: \<open>all\<close> over no token holds, so the candidate \<open>123\<close>, whose one token is not
  alphabetic, yields the empty string as a valid adjective; in the row loop its cell
  counts as valid and the empty string joins the adjectives of the image and the overall
  adjectives. By \<open>filter_adjectives_no_alpha\<close> above it is so for every annotator and every
  candidate without an alphabetic token.
\<close>

theorem filter_adjectives_no_alpha_emits:
  "filter_adjectives
     (\<lambda>text. [\<lparr>tok_lemma = text, tok_pos = ''NUM'', is_alpha = False, is_stop = False\<rparr>])
     (extract_adjectives (Some ''123'')) = ['''']
   \<and> map_sum id
       (\<lambda>st. (map_of (adj_stats st) ''Adjectives_1'', map_of (image_results st) ''Image_1'',
              all_adjectives st, overall_adj_valid_cells st))
       (main_loop
          (\<lambda>text. [\<lparr>tok_lemma = text, tok_pos = ''NUM'', is_alpha = False, is_stop = False\<rparr>])
          [(\<lambda>c. None)(''Adjectives_1'' := Some ''123'')])
     = Inr (Some \<lparr>cells = 1, valid_cells = 1\<rparr>,
            Some \<lparr>r_all_tokens = [], r_adjectives = [''''], r_nouns = []\<rparr>,
            [''''], 1)"
  by code_simp


section \<open>Counters and ranked tables\<close>

lemma Counter_Nil: "Counter [] = []"
  by (simp add: Counter_def)

lemma Counter_snoc:
  "Counter (xs @ [x])
     = AList.update x ((case map_of (Counter xs) x of None \<Rightarrow> 0 | Some n \<Rightarrow> n) + 1) (Counter xs)"
  by (simp add: Counter_def)

lemma Counter_keys_set: "fst ` set (Counter xs) = set xs"
proof (induction xs rule: rev_induct)
  case Nil show ?case by (simp add: Counter_Nil)
next
  case (snoc x xs)
  then show ?case by (simp add: Counter_snoc AList.dom_update)
qed

lemma Counter_keys_distinct: "distinct (map fst (Counter xs))"
proof (induction xs rule: rev_induct)
  case Nil show ?case by (simp add: Counter_Nil)
next
  case (snoc x xs)
  then show ?case by (simp add: Counter_snoc AList.distinct_update)
qed

lemma Counter_map_of:
  "map_of (Counter xs) w = (if w \<in> set xs then Some (count_list xs w) else None)"
proof (induction xs rule: rev_induct)
  case Nil show ?case by (simp add: Counter_Nil)
next
  case (snoc x xs)
  then show ?case by (auto simp: Counter_snoc AList.update_conv')
qed

lemma Counter_entry:
  assumes "(w, k) \<in> set (Counter xs)"
  shows "k = count_list xs w \<and> 0 < k"
proof -
  from assms Counter_keys_distinct[of xs] have "map_of (Counter xs) w = Some k" by simp
  then have "w \<in> set xs" and "k = count_list xs w"
    by (simp_all add: Counter_map_of split: if_splits)
  moreover from this have "count_list xs w \<noteq> 0" by (simp add: count_list_0_iff)
  ultimately show ?thesis by simp
qed

lemma first_index_less: "x \<in> set xs \<Longrightarrow> first_index xs x < length xs"
  by (induction xs) (auto simp: first_index_def)

lemma first_index_append_in: "x \<in> set xs \<Longrightarrow> first_index (xs @ ys) x = first_index xs x"
  by (simp add: first_index_def takeWhile_append1)

lemma first_index_snoc_new: "x \<notin> set xs \<Longrightarrow> first_index (xs @ [x]) x = length xs"
  unfolding first_index_def by (subst takeWhile_append2) auto

lemma Counter_keys_order:
  "sorted_wrt (\<lambda>a b. first_index xs a < first_index xs b) (map fst (Counter xs))"
proof (induction xs rule: rev_induct)
  case Nil show ?case by (simp add: Counter_Nil)
next
  case (snoc x xs)
  let ?ks = "map fst (Counter xs)"
  have old: "sorted_wrt (\<lambda>a b. first_index (xs @ [x]) a < first_index (xs @ [x]) b) ?ks"
    using snoc
    by (rule sorted_wrt_mono_rel[rotated]) (simp add: Counter_keys_set first_index_append_in)
  show ?case
  proof (cases "x \<in> set xs")
    case True
    then have "map fst (Counter (xs @ [x])) = ?ks"
      by (simp add: Counter_snoc AList.update_keys Counter_keys_set)
    with old show ?thesis by simp
  next
    case False
    then have "map fst (Counter (xs @ [x])) = ?ks @ [x]"
      by (simp add: Counter_snoc AList.update_keys Counter_keys_set)
    moreover have "\<forall>k\<in>set ?ks. first_index (xs @ [x]) k < first_index (xs @ [x]) x"
      using False by (simp add: Counter_keys_set first_index_append_in first_index_snoc_new first_index_less)
    ultimately show ?thesis using old by (simp add: sorted_wrt_append)
  qed
qed

lemma insort_key_stable_wrt:
  fixes f :: "'a \<Rightarrow> 'k::linorder"
  assumes "sorted_wrt (\<lambda>a b. f a < f b \<or> (f a = f b \<and> P a b)) ys"
    and "\<forall>y\<in>set ys. P x y"
  shows "sorted_wrt (\<lambda>a b. f a < f b \<or> (f a = f b \<and> P a b)) (insort_key f x ys)"
  using assms
proof (induction ys)
  case Nil then show ?case by simp
next
  case (Cons y ys)
  show ?case
  proof (cases "f x \<le> f y")
    case True
    have "\<forall>z\<in>set (y # ys). f x < f z \<or> (f x = f z \<and> P x z)"
    proof
      fix z assume z: "z \<in> set (y # ys)"
      have "f y \<le> f z" using z Cons.prems(1) by auto
      with True have "f x \<le> f z" by simp
      moreover have "P x z" using z Cons.prems(2) by blast
      ultimately show "f x < f z \<or> (f x = f z \<and> P x z)" by auto
    qed
    with True Cons.prems(1) show ?thesis by simp
  next
    case False
    then have "f y < f x" by simp
    moreover have "sorted_wrt (\<lambda>a b. f a < f b \<or> (f a = f b \<and> P a b)) (insort_key f x ys)"
      using Cons by simp
    ultimately show ?thesis using False Cons.prems(1) by (auto simp: set_insort_key)
  qed
qed

lemma sort_key_stable_wrt:
  fixes f :: "'a \<Rightarrow> 'k::linorder"
  assumes "sorted_wrt P xs"
  shows "sorted_wrt (\<lambda>a b. f a < f b \<or> (f a = f b \<and> P a b)) (sort_key f xs)"
  using assms
proof (induction xs)
  case Nil then show ?case by simp
next
  case (Cons x xs)
  then show ?case by (simp add: insort_key_stable_wrt)
qed

lemma most_common_sorted:
  "sorted_wrt (\<lambda>p q. snd q < snd p
                 \<or> (snd p = snd q \<and> first_index xs (fst p) < first_index xs (fst q)))
     (most_common n (Counter xs))"
proof -
  have "sorted_wrt (\<lambda>p q. first_index xs (fst p) < first_index xs (fst q)) (Counter xs)"
    using Counter_keys_order[of xs] by (simp add: sorted_wrt_map)
  then have "sorted_wrt (\<lambda>p q. - int (snd p) < - int (snd q)
                 \<or> (- int (snd p) = - int (snd q) \<and> first_index xs (fst p) < first_index xs (fst q)))
     (sort_key (\<lambda>item. - int (snd item)) (Counter xs))"
    by (rule sort_key_stable_wrt)
  then have "sorted_wrt (\<lambda>p q. snd q < snd p
                 \<or> (snd p = snd q \<and> first_index xs (fst p) < first_index xs (fst q)))
     (sort_key (\<lambda>item. - int (snd item)) (Counter xs))"
    by (rule sorted_wrt_mono_rel[rotated]) auto
  then show ?thesis unfolding most_common_def by (rule sorted_wrt_take)
qed

lemma distinct_map_insort_key:
  "distinct (map g (insort_key f x xs)) = (g x \<notin> g ` set xs \<and> distinct (map g xs))"
  by (induction xs) (auto simp: set_insort_key)

lemma distinct_map_sort_key: "distinct (map g (sort_key f xs)) = distinct (map g xs)"
  by (induction xs) (simp_all add: distinct_map_insort_key)

lemma most_common_subset: "set (most_common n c) \<subseteq> set c"
  unfolding most_common_def using set_take_subset[of n "sort_key (\<lambda>item. - int (snd item)) c"] by simp

lemma most_common_all: "length c \<le> n \<Longrightarrow> most_common n c = sort_key (\<lambda>item. - int (snd item)) c"
  by (simp add: most_common_def)

lemma length_most_common: "length (most_common n c) = min n (length c)"
  by (simp add: most_common_def min.commute)

text \<open>
  C3. The ranked table \<open>most_common n (Counter xs)\<close> of a stream \<open>xs\<close> lists its pairs by
  descending count, and of two items with equal counts the one that occurs first in the
  stream comes first. Each pair holds an item with the number of its occurrences, and when
  \<open>n\<close> is at least the number of distinct items (as \<open>max_rows\<close> is) every item is listed
  once. For the counts a:3, b:3, c:1 with a first occurring before b the table is a, b, c.
\<close>

theorem most_common_ranked:
  "(\<forall>i j. i < j \<and> j < length (most_common n (Counter xs)) \<longrightarrow>
       snd (most_common n (Counter xs) ! j) \<le> snd (most_common n (Counter xs) ! i)
       \<and> (snd (most_common n (Counter xs) ! i) = snd (most_common n (Counter xs) ! j) \<longrightarrow>
            first_index xs (fst (most_common n (Counter xs) ! i))
              < first_index xs (fst (most_common n (Counter xs) ! j))))
   \<and> (\<forall>(w, k)\<in>set (most_common n (Counter xs)). k = count_list xs w \<and> 0 < k)
   \<and> (length (Counter xs) \<le> n \<longrightarrow>
        distinct (map fst (most_common n (Counter xs)))
        \<and> set (map fst (most_common n (Counter xs))) = set xs)
   \<and> most_common 3 (Counter [''a'', ''b'', ''a'', ''b'', ''a'', ''b'', ''c''])
       = [(''a'', 3), (''b'', 3), (''c'', 1)]
   \<and> most_common 3 (Counter [''c'', ''a'', ''b'', ''b'', ''b'', ''a'', ''a''])
       = [(''a'', 3), (''b'', 3), (''c'', 1)]"
proof -
  let ?r = "most_common n (Counter xs)"
  have 1: "\<forall>i j. i < j \<and> j < length ?r \<longrightarrow>
       snd (?r ! j) \<le> snd (?r ! i)
       \<and> (snd (?r ! i) = snd (?r ! j) \<longrightarrow> first_index xs (fst (?r ! i)) < first_index xs (fst (?r ! j)))"
  proof (intro allI impI)
    fix i j assume "i < j \<and> j < length ?r"
    then have "snd (?r ! j) < snd (?r ! i)
                 \<or> (snd (?r ! i) = snd (?r ! j) \<and> first_index xs (fst (?r ! i)) < first_index xs (fst (?r ! j)))"
      using sorted_wrt_nth_less[OF most_common_sorted[of xs n], of i j] by simp
    then show "snd (?r ! j) \<le> snd (?r ! i)
       \<and> (snd (?r ! i) = snd (?r ! j) \<longrightarrow> first_index xs (fst (?r ! i)) < first_index xs (fst (?r ! j)))"
      by auto
  qed
  have 2: "\<forall>(w, k)\<in>set ?r. k = count_list xs w \<and> 0 < k"
    using most_common_subset[of n "Counter xs"] Counter_entry[of _ _ xs] by blast
  have 3: "length (Counter xs) \<le> n \<longrightarrow> distinct (map fst ?r) \<and> set (map fst ?r) = set xs"
  proof
    assume "length (Counter xs) \<le> n"
    then have r: "?r = sort_key (\<lambda>item. - int (snd item)) (Counter xs)" by (rule most_common_all)
    have "distinct (map fst ?r) = distinct (map fst (Counter xs))"
      and "set (map fst ?r) = fst ` set (Counter xs)"
      unfolding r by (simp_all add: distinct_map_sort_key)
    then show "distinct (map fst ?r) \<and> set (map fst ?r) = set xs"
      using Counter_keys_distinct[of xs] Counter_keys_set[of xs] by simp_all
  qed
  have 4: "most_common 3 (Counter [''a'', ''b'', ''a'', ''b'', ''a'', ''b'', ''c''])
       = [(''a'', 3), (''b'', 3), (''c'', 1)]"
    by code_simp
  have 5: "most_common 3 (Counter [''c'', ''a'', ''b'', ''b'', ''b'', ''a'', ''a''])
       = [(''a'', 3), (''b'', 3), (''c'', 1)]"
    by code_simp
  from 1 2 3 4 5 show ?thesis by blast
qed

theorem most_common_ranked_witness:
  "most_common 2 (Counter [''c'', ''a'', ''b'', ''b'', ''a'']) = [(''a'', 2), (''b'', 2)]
   \<and> first_index [''c'', ''a'', ''b'', ''b'', ''a''] ''a''
       < first_index [''c'', ''a'', ''b'', ''b'', ''a''] ''b''"
proof -
  have r: "most_common 2 (Counter [''c'', ''a'', ''b'', ''b'', ''a'']) = [(''a'', 2), (''b'', 2)]"
    by code_simp
  from most_common_ranked [of 2 "[''c'', ''a'', ''b'', ''b'', ''a'']"]
  have "\<forall>i j. i < j \<and> j < length (most_common 2 (Counter [''c'', ''a'', ''b'', ''b'', ''a''])) \<longrightarrow>
       snd (most_common 2 (Counter [''c'', ''a'', ''b'', ''b'', ''a'']) ! j)
         \<le> snd (most_common 2 (Counter [''c'', ''a'', ''b'', ''b'', ''a'']) ! i)
       \<and> (snd (most_common 2 (Counter [''c'', ''a'', ''b'', ''b'', ''a'']) ! i)
            = snd (most_common 2 (Counter [''c'', ''a'', ''b'', ''b'', ''a'']) ! j) \<longrightarrow>
            first_index [''c'', ''a'', ''b'', ''b'', ''a'']
                (fst (most_common 2 (Counter [''c'', ''a'', ''b'', ''b'', ''a'']) ! i))
              < first_index [''c'', ''a'', ''b'', ''b'', ''a'']
                  (fst (most_common 2 (Counter [''c'', ''a'', ''b'', ''b'', ''a'']) ! j)))"
    by blast
  then have "(0::nat) < 1 \<and> 1 < length (most_common 2 (Counter [''c'', ''a'', ''b'', ''b'', ''a''])) \<longrightarrow>
       snd (most_common 2 (Counter [''c'', ''a'', ''b'', ''b'', ''a'']) ! 1)
         \<le> snd (most_common 2 (Counter [''c'', ''a'', ''b'', ''b'', ''a'']) ! 0)
       \<and> (snd (most_common 2 (Counter [''c'', ''a'', ''b'', ''b'', ''a'']) ! 0)
            = snd (most_common 2 (Counter [''c'', ''a'', ''b'', ''b'', ''a'']) ! 1) \<longrightarrow>
            first_index [''c'', ''a'', ''b'', ''b'', ''a'']
                (fst (most_common 2 (Counter [''c'', ''a'', ''b'', ''b'', ''a'']) ! 0))
              < first_index [''c'', ''a'', ''b'', ''b'', ''a'']
                  (fst (most_common 2 (Counter [''c'', ''a'', ''b'', ''b'', ''a'']) ! 1)))"
    by blast
  with r show ?thesis by simp
qed

section \<open>The loop body\<close>

declare str_nat.simps [simp del]

lemma bind_err_Inr: "bind_err (Inr x) f = f x"
  by (simp add: bind_err_def)

lemma bind_err_Inl: "bind_err (Inl e) f = Inl e"
  by (simp add: bind_err_def)

lemma dict_modify_Some:
  "map_of d k = Some v \<Longrightarrow> dict_modify d k f = Inr (AList.update k (f v) d)"
  by (simp add: dict_modify_def dict_get_def bind_err_def)

lemma map_of_update_same: "map_of (AList.update k v d) k = Some v"
  by (simp add: AList.update_conv')

lemma extract_adjectives_None: "extract_adjectives None = []"
  by (simp add: extract_adjectives_def)

lemma process_pair_effect:
  assumes r: "map_of (image_results st) (image_name i) = Some r"
    and s: "map_of (adj_stats st) a = Some s"
  shows "process_pair nlp row i d a st = Inr (pair_effect nlp row i d a r s st)"
proof (cases "row a")
  case None
  show ?thesis
    unfolding process_pair_def pair_effect_def image_effect_def Let_def
    apply (simp add: None dict_modify_Some[OF r] map_of_update_same dict_modify_Some bind_err_Inr
        extract_adjectives_None)
    apply (cases st; cases r; simp)
    done
next
  case (Some v)
  show ?thesis
    unfolding process_pair_def pair_effect_def image_effect_def process_adjectives_def Let_def
    apply (simp add: Some dict_modify_Some[OF r] dict_modify_Some[OF s] map_of_update_same
        dict_modify_Some bind_err_Inr)
    apply (cases st; cases r; cases s; simp)
    done
qed

lemma enumerate_image_pairs:
  "enumerate_list image_pairs
     = [(0, ''Description_1'', ''Adjectives_1''), (1, ''Description_2'', ''Adjectives_2''),
        (2, ''Description_3'', ''Adjectives_3''), (3, ''Description_4'', ''Adjectives_4''),
        (4, ''Description_5'', ''Adjectives_5''), (5, ''Description_6'', ''Adjectives_6'')]"
  by code_simp

lemma image_names:
  "image_name 0 = ''Image_1''" "image_name 1 = ''Image_2''" "image_name (Suc 0) = ''Image_2''"
  "image_name 2 = ''Image_3''" "image_name 3 = ''Image_4''"
  "image_name 4 = ''Image_5''" "image_name 5 = ''Image_6''"
  by code_simp+

lemma init_state_eq:
  "init_state =
     \<lparr> image_results =
         [(''Image_1'', \<lparr> r_all_tokens = [], r_adjectives = [], r_nouns = [] \<rparr>),
          (''Image_2'', \<lparr> r_all_tokens = [], r_adjectives = [], r_nouns = [] \<rparr>),
          (''Image_3'', \<lparr> r_all_tokens = [], r_adjectives = [], r_nouns = [] \<rparr>),
          (''Image_4'', \<lparr> r_all_tokens = [], r_adjectives = [], r_nouns = [] \<rparr>),
          (''Image_5'', \<lparr> r_all_tokens = [], r_adjectives = [], r_nouns = [] \<rparr>),
          (''Image_6'', \<lparr> r_all_tokens = [], r_adjectives = [], r_nouns = [] \<rparr>)],
       all_tokens = [], all_adjectives = [], all_nouns = [],
       adj_stats =
         [(''Adjectives_1'', \<lparr> cells = 0, valid_cells = 0 \<rparr>),
          (''Adjectives_2'', \<lparr> cells = 0, valid_cells = 0 \<rparr>),
          (''Adjectives_3'', \<lparr> cells = 0, valid_cells = 0 \<rparr>),
          (''Adjectives_4'', \<lparr> cells = 0, valid_cells = 0 \<rparr>),
          (''Adjectives_5'', \<lparr> cells = 0, valid_cells = 0 \<rparr>),
          (''Adjectives_6'', \<lparr> cells = 0, valid_cells = 0 \<rparr>)],
       overall_adj_cells = 0,
       overall_adj_valid_cells = 0 \<rparr>"
  by code_simp

lemma keys_ok_init: "keys_ok init_state"
  by (simp add: init_state_eq keys_ok_def)

lemma map_of_key_ex: "k \<in> set (map fst d) \<Longrightarrow> \<exists>v. map_of d k = Some v"
  by (induction d) auto

lemma pair_entries:
  assumes "keys_ok st" and "(i, d, a) \<in> set (enumerate_list image_pairs)"
  shows "\<exists>r s. map_of (image_results st) (image_name i) = Some r
               \<and> map_of (adj_stats st) a = Some s"
proof -
  from assms(2) have "image_name i \<in> set (map fst (image_results st))
       \<and> a \<in> set (map fst (adj_stats st))"
    using assms(1) unfolding keys_ok_def enumerate_image_pairs
    by (auto simp: image_names)
  then show ?thesis using map_of_key_ex by metis
qed

lemma keys_update: "k \<in> set (map fst d) \<Longrightarrow> map fst (AList.update k v d) = map fst d"
  by (simp add: AList.update_keys)

lemma map_of_Some_key: "map_of d k = Some v \<Longrightarrow> k \<in> set (map fst d)"
  by (metis map_of_eq_None_iff option.distinct(1) set_map)

lemma keys_ok_pair_effect:
  assumes "keys_ok st"
    and r: "map_of (image_results st) (image_name i) = Some r"
    and s: "map_of (adj_stats st) a = Some s"
  shows "keys_ok (pair_effect nlp row i d a r s st)"
  using assms(1) keys_update[OF map_of_Some_key[OF r]] keys_update[OF map_of_Some_key[OF s]]
  by (simp add: keys_ok_def pair_effect_def Let_def)


section \<open>The loops\<close>

lemma process_row_inv:
  assumes "keys_ok st" and "I st" and "set ps \<subseteq> set (enumerate_list image_pairs)"
    and step: "\<And>i d a r s st. keys_ok st \<Longrightarrow> I st \<Longrightarrow> (i, d, a) \<in> set ps \<Longrightarrow>
        map_of (image_results st) (image_name i) = Some r \<Longrightarrow> map_of (adj_stats st) a = Some s \<Longrightarrow>
        I (pair_effect nlp row i d a r s st)"
  shows "\<exists>st'. process_row nlp row ps st = Inr st' \<and> keys_ok st' \<and> I st'"
  using assms
proof (induction ps arbitrary: st)
  case Nil
  then show ?case by simp
next
  case (Cons p ps)
  obtain i d a where p: "p = (i, d, a)" by (cases p) auto
  with Cons.prems(3) have mem: "(i, d, a) \<in> set (enumerate_list image_pairs)" by simp
  from pair_entries[OF Cons.prems(1) mem] obtain r s
    where r: "map_of (image_results st) (image_name i) = Some r"
      and s: "map_of (adj_stats st) a = Some s" by blast
  let ?st1 = "pair_effect nlp row i d a r s st"
  have 1: "process_pair nlp row i d a st = Inr ?st1" by (rule process_pair_effect[OF r s])
  have k1: "keys_ok ?st1" by (rule keys_ok_pair_effect[OF Cons.prems(1) r s])
  have i1: "I ?st1" using Cons.prems(4)[OF Cons.prems(1,2) _ r s] p by simp
  have "\<exists>st'. process_row nlp row ps ?st1 = Inr st' \<and> keys_ok st' \<and> I st'"
  proof (rule Cons.IH[OF k1 i1])
    show "set ps \<subseteq> set (enumerate_list image_pairs)" using Cons.prems(3) by simp
  next
    fix i d a r s st
    assume "keys_ok st" "I st" "(i, d, a) \<in> set ps"
      "map_of (image_results st) (image_name i) = Some r" "map_of (adj_stats st) a = Some s"
    then show "I (pair_effect nlp row i d a r s st)"
      using Cons.prems(4)[of st i d a r s] by simp
  qed
  then show ?case by (simp add: p 1 bind_err_Inr)
qed

lemma process_rows_inv:
  assumes "keys_ok st" and "I st"
    and step: "\<And>row i d a r s st. keys_ok st \<Longrightarrow> I st \<Longrightarrow> row \<in> set rows \<Longrightarrow>
        (i, d, a) \<in> set (enumerate_list image_pairs) \<Longrightarrow>
        map_of (image_results st) (image_name i) = Some r \<Longrightarrow> map_of (adj_stats st) a = Some s \<Longrightarrow>
        I (pair_effect nlp row i d a r s st)"
  shows "\<exists>st'. process_rows nlp rows st = Inr st' \<and> keys_ok st' \<and> I st'"
  using assms
proof (induction rows arbitrary: st)
  case Nil
  then show ?case by simp
next
  case (Cons row rows)
  have "\<exists>st1. process_row nlp row (enumerate_list image_pairs) st = Inr st1 \<and> keys_ok st1 \<and> I st1"
    by (rule process_row_inv[where I = I, OF Cons.prems(1,2)]) (use Cons.prems(3) in auto)
  then obtain st1 where 1: "process_row nlp row (enumerate_list image_pairs) st = Inr st1"
    and k1: "keys_ok st1" and i1: "I st1" by blast
  have "\<exists>st'. process_rows nlp rows st1 = Inr st' \<and> keys_ok st' \<and> I st'"
    by (rule Cons.IH[OF k1 i1]) (use Cons.prems(3) in auto)
  then show ?case by (simp add: 1 bind_err_Inr)
qed

lemma process_row_append:
  "process_row nlp row (ps @ qs) st = bind_err (process_row nlp row ps st) (process_row nlp row qs)"
proof (induction ps arbitrary: st)
  case Nil show ?case by (simp add: bind_err_Inr)
next
  case (Cons p ps)
  obtain i d a where p: "p = (i, d, a)" by (cases p) auto
  show ?case
    by (cases "process_pair nlp row i d a st") (simp_all add: p Cons bind_err_def)
qed

lemma process_rows_append:
  "process_rows nlp (rs @ qs) st = bind_err (process_rows nlp rs st) (process_rows nlp qs)"
proof (induction rs arbitrary: st)
  case Nil show ?case by (simp add: bind_err_Inr)
next
  case (Cons r rs)
  show ?case
    by (cases "process_row nlp r (enumerate_list image_pairs) st") (simp_all add: Cons bind_err_def)
qed

section \<open>The counters\<close>

lemma list_all_update:
  "list_all P d \<Longrightarrow> P (k, v) \<Longrightarrow> list_all P (AList.update k v d)"
  by (induction d) auto

lemma sum_update:
  assumes "distinct (map fst d)" and "map_of d k = Some s"
  shows "sum_list (map (\<lambda>(c, s). cells s) (filter (\<lambda>(c, s). c \<noteq> x) (AList.update k s' d)))
           + (if k \<noteq> x then cells s else 0)
         = sum_list (map (\<lambda>(c, s). cells s) (filter (\<lambda>(c, s). c \<noteq> x) d))
           + (if k \<noteq> x then cells s' else 0)"
  using assms
proof (induction d)
  case Nil then show ?case by simp
next
  case (Cons p d)
  obtain c t where p: "p = (c, t)" by (cases p) auto
  show ?case
  proof (cases "c = k")
    case True
    with Cons.prems p show ?thesis by auto
  next
    case False
    with Cons p show ?thesis by auto
  qed
qed

lemma keys_ok_distinct: "keys_ok st \<Longrightarrow> distinct (map fst (adj_stats st))"
  by (simp add: keys_ok_def)

lemma pair_excluded:
  "(i, d, a) \<in> set (enumerate_list image_pairs) \<Longrightarrow>
     (i = 1 \<longleftrightarrow> a = ''Adjectives_2'') \<and> (i = 1 \<longleftrightarrow> d = ''Description_2'')"
  by (auto simp: enumerate_image_pairs)

lemma map_of_in: "map_of d k = Some v \<Longrightarrow> (k, v) \<in> set d"
  by (rule map_of_SomeD)

lemma counters_ok_pair_effect:
  assumes k: "keys_ok st" and c: "counters_ok st"
    and mem: "(i, d, a) \<in> set (enumerate_list image_pairs)"
    and r: "map_of (image_results st) (image_name i) = Some r"
    and s: "map_of (adj_stats st) a = Some s"
  shows "counters_ok (pair_effect nlp row i d a r s st)"
proof (cases "row a")
  case None
  with c show ?thesis
    by (simp add: counters_ok_def pair_effect_def Let_def extract_adjectives_None)
next
  case (Some v)
  let ?valid = "if filter_adjectives nlp (extract_adjectives (row a)) = [] then 0 else (1::nat)"
  let ?s' = "\<lparr> cells = cells s + 1, valid_cells = valid_cells s + ?valid \<rparr>"
  from s have "(a, s) \<in> set (adj_stats st)" by (rule map_of_SomeD)
  with c have vs: "valid_cells s \<le> cells s" by (auto simp: counters_ok_def list_all_iff)
  have 1: "list_all (\<lambda>(col, s). valid_cells s \<le> cells s) (AList.update a ?s' (adj_stats st))"
    using c vs by (intro list_all_update) (auto simp: counters_ok_def)
  have ex: "i = 1 \<longleftrightarrow> a = ''Adjectives_2''" using pair_excluded[OF mem] by simp
  have "sum_list (map (\<lambda>(c, s). cells s)
            (filter (\<lambda>(c, s). c \<noteq> ''Adjectives_2'') (AList.update a ?s' (adj_stats st))))
           + (if a \<noteq> ''Adjectives_2'' then cells s else 0)
         = sum_list (map (\<lambda>(c, s). cells s) (filter (\<lambda>(c, s). c \<noteq> ''Adjectives_2'') (adj_stats st)))
           + (if a \<noteq> ''Adjectives_2'' then cells ?s' else 0)"
    by (rule sum_update[OF keys_ok_distinct[OF k] s])
  then have 2: "sum_list (map (\<lambda>(c, s). cells s)
            (filter (\<lambda>(c, s). c \<noteq> ''Adjectives_2'') (AList.update a ?s' (adj_stats st))))
         = sum_list (map (\<lambda>(c, s). cells s) (filter (\<lambda>(c, s). c \<noteq> ''Adjectives_2'') (adj_stats st)))
           + (if i \<noteq> 1 then 1 else 0)"
    using ex by (simp split: if_splits)
  from c have 3: "overall_adj_valid_cells st \<le> overall_adj_cells st"
    and 4: "overall_adj_cells st
         = sum_list (map (\<lambda>(col, s). cells s)
                       (filter (\<lambda>(col, s). col \<noteq> ''Adjectives_2'') (adj_stats st)))"
    by (simp_all add: counters_ok_def)
  show ?thesis
    unfolding counters_ok_def pair_effect_def Let_def
    using 1 2 3 4 by (simp add: Some)
qed

lemma counters_ok_init: "counters_ok init_state"
  by (simp add: init_state_eq counters_ok_def)

lemma process_row_counters:
  assumes "keys_ok st" and "counters_ok st" and "set ps \<subseteq> set (enumerate_list image_pairs)"
  shows "\<exists>st'. process_row nlp row ps st = Inr st' \<and> keys_ok st' \<and> counters_ok st'"
proof (rule process_row_inv[where I = counters_ok, OF assms])
  fix i d a r s st
  assume "keys_ok st" "counters_ok st" "(i, d, a) \<in> set ps"
    "map_of (image_results st) (image_name i) = Some r" "map_of (adj_stats st) a = Some s"
  with assms(3) show "counters_ok (pair_effect nlp row i d a r s st)"
    by (intro counters_ok_pair_effect) auto
qed

lemma process_rows_counters:
  assumes "keys_ok st" and "counters_ok st"
  shows "\<exists>st'. process_rows nlp rows st = Inr st' \<and> keys_ok st' \<and> counters_ok st'"
proof (rule process_rows_inv[where I = counters_ok, OF assms])
  fix row i d a r s st
  assume "keys_ok st" "counters_ok st" "(i, d, a) \<in> set (enumerate_list image_pairs)"
    "map_of (image_results st) (image_name i) = Some r" "map_of (adj_stats st) a = Some s"
  then show "counters_ok (pair_effect nlp row i d a r s st)"
    by (intro counters_ok_pair_effect) auto
qed

lemma main_loop_counters:
  "\<exists>fin. main_loop nlp data = Inr fin \<and> keys_ok fin \<and> counters_ok fin"
  unfolding main_loop_def by (rule process_rows_counters[OF keys_ok_init counters_ok_init])

text \<open>A pass is the run of its statements.\<close>

lemma process_pair_steps:
  "process_pair nlp row i d a st = run_steps (pass_steps nlp row i d a) st"
proof (cases "dict_modify (image_results st) (image_name i)
                (\<lambda>r. r\<lparr>r_all_tokens := r_all_tokens r @ tokenize_description nlp (row d)\<rparr>)")
  case (Inl e)
  then show ?thesis
    by (simp add: process_pair_def pass_steps_def Let_def bind_err_Inl)
next
  case (Inr results1)
  then obtain r where r: "map_of (image_results st) (image_name i) = Some r"
    by (cases "map_of (image_results st) (image_name i)")
      (simp_all add: dict_modify_def dict_get_def bind_err_def)
  show ?thesis
  proof (cases "row a = None")
    case True
    then show ?thesis
      unfolding process_pair_def pass_steps_def Let_def
      by (simp add: dict_modify_Some[OF r] dict_modify_Some map_of_update_same bind_err_Inr
          extract_adjectives_None)
  next
    case False
    show ?thesis
    proof (cases "map_of (adj_stats st) a")
      case None
      then show ?thesis
        unfolding process_pair_def pass_steps_def process_adjectives_def Let_def
        by (simp add: False dict_modify_Some[OF r] dict_modify_Some map_of_update_same bind_err_Inr
            dict_modify_def[of "adj_stats st"] dict_get_def bind_err_Inl)
    next
      case (Some s)
      then show ?thesis
        unfolding process_pair_def pass_steps_def process_adjectives_def Let_def
        by (simp add: False dict_modify_Some[OF r] dict_modify_Some[OF Some] dict_modify_Some
            map_of_update_same bind_err_Inr)
    qed
  qed
qed

lemma list_all_update_True:
  "list_all P d \<Longrightarrow> P (k, v) \<Longrightarrow> list_all P (AList.update k v d) = True"
  by (simp add: list_all_update)

lemma pass_points_ok:
  assumes k: "keys_ok st" and ok: "inequalities_ok st"
    and mem: "(i, d, a) \<in> set (enumerate_list image_pairs)"
  shows "\<exists>stj. run_steps (take j (pass_steps nlp row i d a)) st = Inr stj \<and> inequalities_ok stj"
proof -
  from pair_entries[OF k mem] obtain r s
    where r: "map_of (image_results st) (image_name i) = Some r"
      and s: "map_of (adj_stats st) a = Some s" by blast
  from s have "(a, s) \<in> set (adj_stats st)" by (rule map_of_SomeD)
  with ok have vs: "valid_cells s \<le> cells s"
    by (auto simp: inequalities_ok_def list_all_iff)
  from ok have la: "list_all (\<lambda>(col, s). valid_cells s \<le> cells s) (adj_stats st)"
    and ov: "overall_adj_valid_cells st \<le> overall_adj_cells st"
    by (simp_all add: inequalities_ok_def)
  note simps = pass_steps_def Let_def bind_err_Inr dict_modify_Some[OF r] dict_modify_Some[OF s]
    dict_modify_Some map_of_update_same inequalities_ok_def list_all_update_True la
  have "j = 0 \<or> j = 1 \<or> j = 2 \<or> j = 3 \<or> j = 4 \<or> j = 5 \<or> j = 6 \<or> j = 7
    \<or> j = 8 \<or> j = 9 \<or> 10 \<le> j"
    by arith
  then consider "j = 0" | "j = 1" | "j = 2" | "j = 3" | "j = 4" | "j = 5" | "j = 6" | "j = 7"
    | "j = 8" | "j = 9" | "10 \<le> j"
    by blast
  then show ?thesis
  proof cases
    case 1 with ok show ?thesis by simp
  next
    case 2 with la ov show ?thesis by (simp add: simps)
  next
    case 3 with la ov show ?thesis by (simp add: simps)
  next
    case 4 with la ov vs show ?thesis by (simp add: simps)
  next
    case 5 with la ov vs show ?thesis by (simp add: simps)
  next
    case 6 with la ov vs show ?thesis by (simp add: simps)
  next
    case 7 with la ov vs show ?thesis by (simp add: simps)
  next
    case 8 with la ov vs show ?thesis by (simp add: simps)
  next
    case 9 with la ov vs show ?thesis by (simp add: simps)
  next
    case 10 with la ov vs show ?thesis by (simp add: simps)
  next
    case 11
    then have "take j (pass_steps nlp row i d a) = pass_steps nlp row i d a"
      by (simp add: pass_steps_def Let_def)
    with la ov vs show ?thesis by (simp add: simps)
  qed
qed

text \<open>
  C10, amended. The run on any data passes, for each row and each \<open>k\<close>, through the state
  \<open>st'\<close> reached after the rows before it and the first \<open>k\<close> stimuli of the row, and ends
  in a state \<open>fin\<close>. In each of these states, between two passes of the loop body and at
  the end, every one of the six adjective columns has \<open>valid_cells \<le> cells\<close>,
  \<open>overall_adj_valid_cells \<le> overall_adj_cells\<close>, and \<open>overall_adj_cells\<close> is the sum of
  \<open>cells\<close> over the five columns other than \<open>Adjectives_2\<close> (\<open>counters_ok\<close>, on the six keys
  of \<open>keys_ok\<close>). A pass from such a state is the run of its statements (\<open>pass_steps\<close>), and
  after any number \<open>j\<close> of them the two inequalities still hold (\<open>inequalities_ok\<close>).
\<close>

theorem counters_ok_always:
  "\<exists>st st' fin.
      process_rows nlp before init_state = Inr st
    \<and> process_row nlp row (take k (enumerate_list image_pairs)) st = Inr st'
    \<and> main_loop nlp (before @ row # after)
        = bind_err (process_row nlp row (drop k (enumerate_list image_pairs)) st')
            (process_rows nlp after)
    \<and> main_loop nlp (before @ row # after) = Inr fin
    \<and> keys_ok st' \<and> counters_ok st' \<and> keys_ok fin \<and> counters_ok fin
    \<and> (\<forall>row' i d a j. (i, d, a) \<in> set (enumerate_list image_pairs) \<longrightarrow>
          process_pair nlp row' i d a st' = run_steps (pass_steps nlp row' i d a) st'
          \<and> (\<exists>stj. run_steps (take j (pass_steps nlp row' i d a)) st' = Inr stj
                 \<and> inequalities_ok stj))"
proof -
  let ?ps = "enumerate_list image_pairs"
  obtain st where 1: "process_rows nlp before init_state = Inr st"
    and k1: "keys_ok st" and c1: "counters_ok st"
    using process_rows_counters[OF keys_ok_init counters_ok_init] by blast
  have "set (take k ?ps) \<subseteq> set ?ps" by (rule set_take_subset)
  from process_row_counters[OF k1 c1 this]
  obtain st' where 2: "process_row nlp row (take k ?ps) st = Inr st'"
    and k2: "keys_ok st'" and c2: "counters_ok st'" by blast
  have "set (drop k ?ps) \<subseteq> set ?ps" by (rule set_drop_subset)
  from process_row_counters[OF k2 c2 this]
  obtain st2 where 3: "process_row nlp row (drop k ?ps) st' = Inr st2"
    and k3: "keys_ok st2" and c3: "counters_ok st2" by blast
  obtain fin where 4: "process_rows nlp after st2 = Inr fin"
    and k4: "keys_ok fin" and c4: "counters_ok fin"
    using process_rows_counters[OF k3 c3] by blast
  have row: "process_row nlp row ?ps st = Inr st2"
    using process_row_append[of nlp row "take k ?ps" "drop k ?ps" st] 2 3
    by (simp add: bind_err_Inr)
  have "main_loop nlp (before @ row # after)
          = bind_err (process_rows nlp before init_state) (process_rows nlp (row # after))"
    by (simp add: main_loop_def process_rows_append)
  also have "\<dots> = bind_err (process_row nlp row ?ps st) (process_rows nlp after)"
    by (simp add: 1 bind_err_Inr)
  finally have m: "main_loop nlp (before @ row # after)
          = bind_err (process_row nlp row ?ps st) (process_rows nlp after)" .
  have 5: "main_loop nlp (before @ row # after)
        = bind_err (process_row nlp row (drop k ?ps) st') (process_rows nlp after)"
    by (simp add: m row 3)
  have 6: "main_loop nlp (before @ row # after) = Inr fin"
    by (simp add: m row bind_err_Inr 4)
  from c2 have i2: "inequalities_ok st'"
    by (simp add: counters_ok_def inequalities_ok_def)
  have 7: "\<forall>row' i d a j. (i, d, a) \<in> set (enumerate_list image_pairs) \<longrightarrow>
          process_pair nlp row' i d a st' = run_steps (pass_steps nlp row' i d a) st'
          \<and> (\<exists>stj. run_steps (take j (pass_steps nlp row' i d a)) st' = Inr stj
                 \<and> inequalities_ok stj)"
    using process_pair_steps pass_points_ok[OF k2 i2] by blast
  note facts = 1 2 5 6 k2 c2 k4 c4 7
  show ?thesis
    by (rule exI[of _ st], rule exI[of _ st'], rule exI[of _ fin], intro conjI) (rule facts)+
qed

text \<open>
  C10 as stated fails inside a pass: in the first pass of the run on the row whose only
  cell is the adjective field \<open>bright\<close> of stimulus 1, after line 87 the column
  \<open>Adjectives_1\<close> has \<open>cells = 1\<close> while \<open>overall_adj_cells\<close> is still 0, so
  \<open>overall_adj_cells\<close> is not the sum of the five included columns there.
\<close>

theorem sum_lags_inside_pass:
  "map_sum id
     (\<lambda>st. (map_of (adj_stats st) ''Adjectives_1'', overall_adj_cells st,
            sum_list (map (\<lambda>(col, s). cells s)
                        (filter (\<lambda>(col, s). col \<noteq> ''Adjectives_2'') (adj_stats st))),
            counters_ok st))
     (run_steps
        (take 3 (pass_steps sample_nlp ((\<lambda>c. None)(''Adjectives_1'' := Some ''bright''))
                   0 ''Description_1'' ''Adjectives_1''))
        init_state)
   = Inr (Some \<lparr>cells = 1, valid_cells = 0\<rparr>, 0, 1, False)
   \<and> main_loop sample_nlp [(\<lambda>c. None)(''Adjectives_1'' := Some ''bright'')]
     = bind_err
         (bind_err
            (run_steps
               (pass_steps sample_nlp ((\<lambda>c. None)(''Adjectives_1'' := Some ''bright''))
                  0 ''Description_1'' ''Adjectives_1'')
               init_state)
            (process_row sample_nlp ((\<lambda>c. None)(''Adjectives_1'' := Some ''bright''))
               (tl (enumerate_list image_pairs))))
         (process_rows sample_nlp [])"
proof -
  have 1: "map_sum id
     (\<lambda>st. (map_of (adj_stats st) ''Adjectives_1'', overall_adj_cells st,
            sum_list (map (\<lambda>(col, s). cells s)
                        (filter (\<lambda>(col, s). col \<noteq> ''Adjectives_2'') (adj_stats st))),
            counters_ok st))
     (run_steps
        (take 3 (pass_steps sample_nlp ((\<lambda>c. None)(''Adjectives_1'' := Some ''bright''))
                   0 ''Description_1'' ''Adjectives_1''))
        init_state)
   = Inr (Some \<lparr>cells = 1, valid_cells = 0\<rparr>, 0, 1, False)"
    by code_simp
  have 2: "main_loop sample_nlp [(\<lambda>c. None)(''Adjectives_1'' := Some ''bright'')]
     = bind_err
         (bind_err
            (run_steps
               (pass_steps sample_nlp ((\<lambda>c. None)(''Adjectives_1'' := Some ''bright''))
                  0 ''Description_1'' ''Adjectives_1'')
               init_state)
            (process_row sample_nlp ((\<lambda>c. None)(''Adjectives_1'' := Some ''bright''))
               (tl (enumerate_list image_pairs))))
         (process_rows sample_nlp [])"
    by (simp add: main_loop_def enumerate_image_pairs process_pair_steps)
  from 1 2 show ?thesis by (rule conjI)
qed

theorem counters_ok_always_witness:
  "(0, ''Description_1'', ''Adjectives_1'') \<in> set (enumerate_list image_pairs)
   \<and> (\<exists>fin. main_loop sample_nlp [(\<lambda>c. None)(''Adjectives_1'' := Some ''bright'')] = Inr fin
          \<and> counters_ok fin)
   \<and> (\<exists>stj. run_steps
                (take 3 (pass_steps sample_nlp ((\<lambda>c. None)(''Adjectives_1'' := Some ''bright''))
                           0 ''Description_1'' ''Adjectives_1''))
                init_state = Inr stj
          \<and> inequalities_ok stj)"
proof -
  let ?row = "(\<lambda>c. None)(''Adjectives_1'' := Some ''bright'')"
  have mem: "(0, ''Description_1'', ''Adjectives_1'') \<in> set (enumerate_list image_pairs)"
    by (simp add: enumerate_image_pairs)
  from counters_ok_always [of sample_nlp "[]" ?row 0 "[]"]
  obtain st st' fin where a: "process_rows sample_nlp [] init_state = Inr st"
    and b: "process_row sample_nlp ?row (take 0 (enumerate_list image_pairs)) st = Inr st'"
    and c: "main_loop sample_nlp ([] @ ?row # []) = Inr fin" and d: "counters_ok fin"
    and e: "\<forall>row' i d a j. (i, d, a) \<in> set (enumerate_list image_pairs) \<longrightarrow>
          process_pair sample_nlp row' i d a st' = run_steps (pass_steps sample_nlp row' i d a) st'
          \<and> (\<exists>stj. run_steps (take j (pass_steps sample_nlp row' i d a)) st' = Inr stj
                 \<and> inequalities_ok stj)"
    by blast
  from a b have st': "st' = init_state" by simp
  from e mem have "\<exists>stj. run_steps (take 3 (pass_steps sample_nlp ?row 0 ''Description_1''
      ''Adjectives_1'')) st' = Inr stj \<and> inequalities_ok stj"
    by blast
  with st' have f: "\<exists>stj. run_steps (take 3 (pass_steps sample_nlp ?row 0 ''Description_1''
      ''Adjectives_1'')) init_state = Inr stj \<and> inequalities_ok stj"
    by simp
  from c d have g: "\<exists>fin. main_loop sample_nlp [?row] = Inr fin \<and> counters_ok fin" by auto
  from mem g f show ?thesis by blast
qed

section \<open>Missing and blank adjective cells\<close>

lemma lower_char_is_space: "is_space c \<Longrightarrow> lower_char c = c"
  by (auto simp: is_space_def lower_char_def Let_def)

lemma extract_adjectives_blank:
  assumes "list_all is_space s"
  shows "extract_adjectives (Some s) = []"
proof -
  from assms have "lower s = s"
    unfolding lower_def by (intro map_idI) (simp add: list_all_iff lower_char_is_space)
  moreover from assms have d: "dropWhile is_space s = []" by (simp add: list_all_iff)
  have "strip s = []" unfolding strip_def d by simp
  ultimately have "normalize_text s = []" by (simp add: normalize_text_def)
  then show ?thesis
    by (simp add: extract_adjectives_def re_split_delims.simps strip_def)
qed

lemma map_update_same_proj:
  "map_of d k = Some v \<Longrightarrow> g v' = g v \<Longrightarrow>
   map (\<lambda>(k, r). (k, g r)) (AList.update k v' d) = map (\<lambda>(k, r). (k, g r)) d"
  by (induction d) (auto split: if_splits)

text \<open>
  C2, amended. In a state with the six keys, for every row and stimulus: a missing (NA)
  adjective cell leaves the adjective counters, the overall counters and every adjective
  list as they are. A cell that is present but blank (white space only, or empty) adds no
  adjective and leaves the valid-cell counters as they are, but it is counted: \<open>cells\<close> of
  its column goes up by one, and so does \<open>overall_adj_cells\<close> unless the stimulus is the
  excluded one.
\<close>

theorem missing_adjective_field:
  assumes "keys_ok st" and "(i, d, a) \<in> set (enumerate_list image_pairs)"
  shows "(row a = None \<longrightarrow>
           (\<exists>st'. process_pair nlp row i d a st = Inr st'
              \<and> adj_stats st' = adj_stats st
              \<and> overall_adj_cells st' = overall_adj_cells st
              \<and> overall_adj_valid_cells st' = overall_adj_valid_cells st
              \<and> all_adjectives st' = all_adjectives st
              \<and> map (\<lambda>(image, r). (image, r_adjectives r)) (image_results st')
                  = map (\<lambda>(image, r). (image, r_adjectives r)) (image_results st)))
       \<and> (\<forall>s. row a = Some s \<and> list_all is_space s \<longrightarrow>
           (\<exists>st' c. process_pair nlp row i d a st = Inr st'
              \<and> map_of (adj_stats st) a = Some c
              \<and> adj_stats st' = AList.update a (c\<lparr>cells := cells c + 1\<rparr>) (adj_stats st)
              \<and> overall_adj_cells st' = overall_adj_cells st + (if i = 1 then 0 else 1)
              \<and> overall_adj_valid_cells st' = overall_adj_valid_cells st
              \<and> all_adjectives st' = all_adjectives st
              \<and> map (\<lambda>(image, r). (image, r_adjectives r)) (image_results st')
                  = map (\<lambda>(image, r). (image, r_adjectives r)) (image_results st)))"
proof -
  from pair_entries[OF assms] obtain r c
    where r: "map_of (image_results st) (image_name i) = Some r"
      and c: "map_of (adj_stats st) a = Some c" by blast
  let ?st' = "pair_effect nlp row i d a r c st"
  have run: "process_pair nlp row i d a st = Inr ?st'" by (rule process_pair_effect[OF r c])
  have img: "filter_adjectives nlp (extract_adjectives (row a)) = [] \<Longrightarrow>
      map (\<lambda>(image, r). (image, r_adjectives r)) (image_results ?st')
        = map (\<lambda>(image, r). (image, r_adjectives r)) (image_results st)"
    unfolding pair_effect_def Let_def
    by (simp add: map_update_same_proj[OF r] image_effect_def)
  have none: "row a = None \<longrightarrow>
           (\<exists>st'. process_pair nlp row i d a st = Inr st'
              \<and> adj_stats st' = adj_stats st
              \<and> overall_adj_cells st' = overall_adj_cells st
              \<and> overall_adj_valid_cells st' = overall_adj_valid_cells st
              \<and> all_adjectives st' = all_adjectives st
              \<and> map (\<lambda>(image, r). (image, r_adjectives r)) (image_results st')
                  = map (\<lambda>(image, r). (image, r_adjectives r)) (image_results st))"
  proof
    assume n: "row a = None"
    then have e: "filter_adjectives nlp (extract_adjectives (row a)) = []"
      by (simp add: extract_adjectives_None)
    have "adj_stats ?st' = adj_stats st \<and> overall_adj_cells ?st' = overall_adj_cells st
        \<and> overall_adj_valid_cells ?st' = overall_adj_valid_cells st
        \<and> all_adjectives ?st' = all_adjectives st"
      by (simp add: pair_effect_def Let_def n extract_adjectives_None)
    with run img[OF e] show "\<exists>st'. process_pair nlp row i d a st = Inr st'
              \<and> adj_stats st' = adj_stats st
              \<and> overall_adj_cells st' = overall_adj_cells st
              \<and> overall_adj_valid_cells st' = overall_adj_valid_cells st
              \<and> all_adjectives st' = all_adjectives st
              \<and> map (\<lambda>(image, r). (image, r_adjectives r)) (image_results st')
                  = map (\<lambda>(image, r). (image, r_adjectives r)) (image_results st)"
      by blast
  qed
  have blank: "\<forall>s. row a = Some s \<and> list_all is_space s \<longrightarrow>
           (\<exists>st' c. process_pair nlp row i d a st = Inr st'
              \<and> map_of (adj_stats st) a = Some c
              \<and> adj_stats st' = AList.update a (c\<lparr>cells := cells c + 1\<rparr>) (adj_stats st)
              \<and> overall_adj_cells st' = overall_adj_cells st + (if i = 1 then 0 else 1)
              \<and> overall_adj_valid_cells st' = overall_adj_valid_cells st
              \<and> all_adjectives st' = all_adjectives st
              \<and> map (\<lambda>(image, r). (image, r_adjectives r)) (image_results st')
                  = map (\<lambda>(image, r). (image, r_adjectives r)) (image_results st))"
  proof (intro allI impI)
    fix s assume b: "row a = Some s \<and> list_all is_space s"
    then have e: "filter_adjectives nlp (extract_adjectives (row a)) = []"
      by (simp add: extract_adjectives_blank)
    have "adj_stats ?st' = AList.update a (c\<lparr>cells := cells c + 1\<rparr>) (adj_stats st)
        \<and> overall_adj_cells ?st' = overall_adj_cells st + (if i = 1 then 0 else 1)
        \<and> overall_adj_valid_cells ?st' = overall_adj_valid_cells st
        \<and> all_adjectives ?st' = all_adjectives st"
      using b e by (cases c) (simp add: pair_effect_def Let_def)
    with run c img[OF e] show "\<exists>st' c. process_pair nlp row i d a st = Inr st'
              \<and> map_of (adj_stats st) a = Some c
              \<and> adj_stats st' = AList.update a (c\<lparr>cells := cells c + 1\<rparr>) (adj_stats st)
              \<and> overall_adj_cells st' = overall_adj_cells st + (if i = 1 then 0 else 1)
              \<and> overall_adj_valid_cells st' = overall_adj_valid_cells st
              \<and> all_adjectives st' = all_adjectives st
              \<and> map (\<lambda>(image, r). (image, r_adjectives r)) (image_results st')
                  = map (\<lambda>(image, r). (image, r_adjectives r)) (image_results st)"
      by blast
  qed
  from none blank show ?thesis by blast
qed

text \<open>
  C2 as stated fails: the row whose only cell is the adjective field \<open>" "\<close> of stimulus 1
  raises \<open>cells\<close> of \<open>Adjectives_1\<close> and \<open>overall_adj_cells\<close> from 0 to 1.
\<close>

theorem blank_adjective_field_counted:
  "map_of (adj_stats init_state) ''Adjectives_1'' = Some \<lparr>cells = 0, valid_cells = 0\<rparr>
   \<and> overall_adj_cells init_state = 0
   \<and> map_sum id
       (\<lambda>st. (map_of (adj_stats st) ''Adjectives_1'', overall_adj_cells st, all_adjectives st))
       (main_loop sample_nlp [(\<lambda>c. None)(''Adjectives_1'' := Some '' '')])
     = Inr (Some \<lparr>cells = 1, valid_cells = 0\<rparr>, 1, [])"
  by code_simp

theorem missing_adjective_field_witness:
  "keys_ok init_state \<and> (0, ''Description_1'', ''Adjectives_1'') \<in> set (enumerate_list image_pairs)
   \<and> (\<exists>st'. process_pair sample_nlp (\<lambda>c. None) 0 ''Description_1'' ''Adjectives_1'' init_state = Inr st'
          \<and> adj_stats st' = adj_stats init_state
          \<and> overall_adj_cells st' = 0)
   \<and> (\<exists>st'. process_pair sample_nlp ((\<lambda>c. None)(''Adjectives_1'' := Some '' '')) 0
              ''Description_1'' ''Adjectives_1'' init_state = Inr st'
          \<and> overall_adj_cells st' = 1 \<and> all_adjectives st' = [])"
proof -
  have m: "(0, ''Description_1'', ''Adjectives_1'') \<in> set (enumerate_list image_pairs)"
    by (simp add: enumerate_image_pairs)
  have i0: "overall_adj_cells init_state = 0" "all_adjectives init_state = []"
    by (simp_all add: init_state_eq)
  have sp: "list_all is_space '' ''" by (simp add: is_space_def)
  from missing_adjective_field [OF keys_ok_init m, of "\<lambda>c. None" sample_nlp]
  have 1: "\<exists>st'. process_pair sample_nlp (\<lambda>c. None) 0 ''Description_1'' ''Adjectives_1'' init_state = Inr st'
          \<and> adj_stats st' = adj_stats init_state
          \<and> overall_adj_cells st' = 0"
    using i0 by auto
  from missing_adjective_field [OF keys_ok_init m,
      of "(\<lambda>c. None)(''Adjectives_1'' := Some '' '')" sample_nlp] sp
  have 2: "\<exists>st'. process_pair sample_nlp ((\<lambda>c. None)(''Adjectives_1'' := Some '' '')) 0
              ''Description_1'' ''Adjectives_1'' init_state = Inr st'
          \<and> overall_adj_cells st' = 1 \<and> all_adjectives st' = []"
    using i0 by auto
  from keys_ok_init m 1 2 show ?thesis by blast
qed


section \<open>The exported table\<close>

lemma update_new: "k \<notin> fst ` set d \<Longrightarrow> AList.update k v d = d @ [(k, v)]"
  by (induction d) auto

lemma dict_update_append:
  "distinct (map fst d @ map fst kvs) \<Longrightarrow> dict_update d kvs = d @ kvs"
proof (induction kvs arbitrary: d)
  case Nil
  show ?case by (simp add: dict_update_def)
next
  case (Cons p kvs)
  obtain k v where p: "p = (k, v)" by (cases p) auto
  from Cons.prems p have new: "k \<notin> fst ` set d" by auto
  from Cons.prems p have "distinct (map fst (d @ [(k, v)]) @ map fst kvs)" by auto
  from Cons.IH[OF this] have "dict_update (d @ [(k, v)]) kvs = (d @ [(k, v)]) @ kvs" .
  then show ?case by (simp add: dict_update_def p update_new[OF new])
qed

lemma fold_dict_update:
  "distinct (map fst (d @ concat (map g fs))) \<Longrightarrow>
   fold (\<lambda>x d. dict_update d (g x)) fs d = d @ concat (map g fs)"
proof (induction fs arbitrary: d)
  case Nil
  show ?case by simp
next
  case (Cons f fs)
  from Cons.prems have 1: "distinct (map fst d @ map fst (g f))" by auto
  from Cons.prems have 2: "distinct (map fst ((d @ g f) @ concat (map g fs)))" by auto
  show ?case by (simp add: dict_update_append[OF 1] Cons.IH[OF 2])
qed

lemma image_frequencies_map:
  assumes "keys_ok st"
  shows "image_frequencies st =
     map (\<lambda>(image, results).
               (image,
                \<lparr> description_word_freq = Counter (r_all_tokens results),
                  adjective_freq = Counter (r_adjectives results),
                  noun_freq = Counter (r_nouns results) \<rparr>))
          (image_results st)"
proof -
  let ?f = "\<lambda>(image, results).
               (image,
                \<lparr> description_word_freq = Counter (r_all_tokens results),
                  adjective_freq = Counter (r_adjectives results),
                  noun_freq = Counter (r_nouns results) \<rparr>)"
  have "map fst (map ?f (image_results st)) = map fst (image_results st)"
    by (simp add: case_prod_beta comp_def)
  with assms have "distinct (map fst [] @ map fst (map ?f (image_results st)))"
    by (simp add: keys_ok_def)
  from dict_update_append[OF this] show ?thesis by (simp add: image_frequencies_def)
qed

lemma image_frequencies_keys:
  "keys_ok st \<Longrightarrow> map fst (image_frequencies st)
       = [''Image_1'', ''Image_2'', ''Image_3'', ''Image_4'', ''Image_5'', ''Image_6'']"
  by (simp add: image_frequencies_map keys_ok_def case_prod_beta comp_def)

lemma fold_max_ge: "(y::nat) \<le> fold max ys y \<and> (\<forall>x\<in>set ys. x \<le> fold max ys y)"
proof (induction ys arbitrary: y)
  case Nil show ?case by simp
next
  case (Cons z zs)
  from Cons[of "max z y"] show ?case by auto
qed

lemma fold_max_mem: "fold max ys (y::nat) \<in> set (y # ys)"
proof (induction ys arbitrary: y)
  case Nil show ?case by simp
next
  case (Cons z zs)
  from Cons[of "max z y"] show ?case by (auto simp: max_def split: if_splits)
qed

lemma py_max_char:
  assumes "xs \<noteq> []"
  shows "\<exists>m. py_max xs = Inr m \<and> m \<in> set xs \<and> (\<forall>x\<in>set xs. x \<le> m)"
proof -
  from assms obtain y ys where xs: "xs = y # ys" by (cases xs) auto
  have "py_max xs = Inr (fold max ys y)" by (simp add: xs py_max_def)
  moreover have "fold max ys y \<in> set xs" unfolding xs by (rule fold_max_mem)
  moreover have "\<forall>x\<in>set xs. x \<le> fold max ys y" unfolding xs using fold_max_ge[of y ys] by auto
  ultimately show ?thesis by blast
qed

lemma image_frequencies_ne: "keys_ok st \<Longrightarrow> image_frequencies st \<noteq> []"
  using image_frequencies_keys[of st] by auto

lemma tables_mem:
  "t \<in> set (tables st) \<longleftrightarrow>
     (\<exists>image freq. (image, freq) \<in> set (image_frequencies st)
         \<and> (t = description_word_freq freq \<or> t = adjective_freq freq \<or> t = noun_freq freq))
     \<or> t = overall_description_word_freq st \<or> t = overall_adjective_freq st
     \<or> t = overall_noun_freq st"
  unfolding tables_def by auto

lemma max_rows_char:
  assumes "keys_ok st"
  shows "\<exists>n. max_rows st = Inr n \<and> (\<forall>t\<in>set (tables st). length t \<le> n)
            \<and> (\<exists>t\<in>set (tables st). length t = n)"
proof -
  let ?fs = "image_frequencies st"
  let ?g = "\<lambda>(image, freq). max (length (description_word_freq freq))
                         (max (length (adjective_freq freq)) (length (noun_freq freq)))"
  have ne: "map ?g ?fs \<noteq> []" using image_frequencies_ne[OF assms] by simp
  from py_max_char[OF ne] obtain m where m: "py_max (map ?g ?fs) = Inr m"
    and mem: "m \<in> set (map ?g ?fs)" and ub: "\<forall>x\<in>set (map ?g ?fs). x \<le> m" by blast
  let ?a = "length (overall_description_word_freq st)"
  let ?b = "length (overall_adjective_freq st)"
  let ?c = "length (overall_noun_freq st)"
  let ?n = "max m (max ?a (max ?b ?c))"
  have run: "max_rows st = Inr ?n" by (simp add: max_rows_def m bind_err_Inr)
  have le: "\<forall>t\<in>set (tables st). length t \<le> ?n"
  proof
    fix t assume "t \<in> set (tables st)"
    then consider (img) image freq where "(image, freq) \<in> set ?fs"
        "t = description_word_freq freq \<or> t = adjective_freq freq \<or> t = noun_freq freq"
      | (ov) "t = overall_description_word_freq st \<or> t = overall_adjective_freq st
              \<or> t = overall_noun_freq st"
      unfolding tables_mem by blast
    then show "length t \<le> ?n"
    proof cases
      case img
      from img(1) have "?g (image, freq) \<in> ?g ` set ?fs" by (rule imageI)
      then have "?g (image, freq) \<in> set (map ?g ?fs)" by (simp only: set_map)
      with ub have "?g (image, freq) \<le> m" by blast
      moreover from img(2) have "length t \<le> ?g (image, freq)" by auto
      ultimately have "length t \<le> m" by (rule order_trans[rotated])
      then show ?thesis by (simp add: max.coboundedI1)
    next
      case ov
      then show ?thesis by auto
    qed
  qed
  have at: "\<exists>t\<in>set (tables st). length t = ?n"
  proof -
    from mem obtain image freq where f: "(image, freq) \<in> set ?fs" and mg: "m = ?g (image, freq)"
      by auto
    have "m = length (description_word_freq freq) \<or> m = length (adjective_freq freq)
          \<or> m = length (noun_freq freq)"
      unfolding mg by (simp add: max_def)
    moreover have "description_word_freq freq \<in> set (tables st)"
      "adjective_freq freq \<in> set (tables st)" "noun_freq freq \<in> set (tables st)"
      using f by (auto simp: tables_mem)
    ultimately have 1: "\<exists>t\<in>set (tables st). length t = m" by metis
    have ov: "overall_description_word_freq st \<in> set (tables st)"
      "overall_adjective_freq st \<in> set (tables st)" "overall_noun_freq st \<in> set (tables st)"
      by (simp_all add: tables_mem)
    have "?n = m \<or> ?n = ?a \<or> ?n = ?b \<or> ?n = ?c" by (simp add: max_def)
    with 1 ov show ?thesis by metis
  qed
  from run le at show ?thesis by blast
qed

lemma max_rows_Max:
  assumes "keys_ok st" and "max_rows st = Inr n"
  shows "n = Max (set (map length (tables st)))"
proof -
  from max_rows_char[OF assms(1)] assms(2)
  have le: "\<forall>t\<in>set (tables st). length t \<le> n" and at: "\<exists>t\<in>set (tables st). length t = n"
    by auto
  have "Max (set (map length (tables st))) = n"
  proof (rule Max_eqI)
    show "finite (set (map length (tables st)))" by (rule finite_set)
    show "\<And>y. y \<in> set (map length (tables st)) \<Longrightarrow> y \<le> n" using le by auto
    show "n \<in> set (map length (tables st))" using at by auto
  qed
  then show ?thesis by simp
qed


lemma image_columns_keys:
  "map fst (image_columns img freq n)
     = map ((@) img) [''_Free_Word'', ''_Free_Freq'', ''_Adj_Word'', ''_Adj_Freq'',
                      ''_Noun_Word'', ''_Noun_Freq'']"
  by (simp add: image_columns_def Let_def)

lemma image_columns_concat_keys:
  "map fst (concat (map (\<lambda>(image, freq). image_columns image freq n) fs))
     = concat (map (\<lambda>img. map ((@) img) [''_Free_Word'', ''_Free_Freq'', ''_Adj_Word'',
                      ''_Adj_Freq'', ''_Noun_Word'', ''_Noun_Freq'']) (map fst fs))"
  by (simp add: map_concat comp_def case_prod_beta image_columns_keys)

lemma overall_columns_keys:
  "map fst (overall_columns st n)
     = [''Overall_Free_Word'', ''Overall_Free_Freq'', ''Overall_Adj_Word'', ''Overall_Adj_Freq'',
        ''Overall_Noun_Word'', ''Overall_Noun_Freq'']"
  by (simp add: overall_columns_def)

lemma csv_keys_aux:
  assumes "keys_ok st"
  shows "map fst (concat (map (\<lambda>(image, freq). image_columns image freq n) (image_frequencies st))
                  @ overall_columns st n)
    = [''Image_1_Free_Word'', ''Image_1_Free_Freq'', ''Image_1_Adj_Word'', ''Image_1_Adj_Freq'',
       ''Image_1_Noun_Word'', ''Image_1_Noun_Freq'',
       ''Image_2_Free_Word'', ''Image_2_Free_Freq'', ''Image_2_Adj_Word'', ''Image_2_Adj_Freq'',
       ''Image_2_Noun_Word'', ''Image_2_Noun_Freq'',
       ''Image_3_Free_Word'', ''Image_3_Free_Freq'', ''Image_3_Adj_Word'', ''Image_3_Adj_Freq'',
       ''Image_3_Noun_Word'', ''Image_3_Noun_Freq'',
       ''Image_4_Free_Word'', ''Image_4_Free_Freq'', ''Image_4_Adj_Word'', ''Image_4_Adj_Freq'',
       ''Image_4_Noun_Word'', ''Image_4_Noun_Freq'',
       ''Image_5_Free_Word'', ''Image_5_Free_Freq'', ''Image_5_Adj_Word'', ''Image_5_Adj_Freq'',
       ''Image_5_Noun_Word'', ''Image_5_Noun_Freq'',
       ''Image_6_Free_Word'', ''Image_6_Free_Freq'', ''Image_6_Adj_Word'', ''Image_6_Adj_Freq'',
       ''Image_6_Noun_Word'', ''Image_6_Noun_Freq'',
       ''Overall_Free_Word'', ''Overall_Free_Freq'', ''Overall_Adj_Word'', ''Overall_Adj_Freq'',
       ''Overall_Noun_Word'', ''Overall_Noun_Freq'']"
  by (simp only: map_append image_columns_concat_keys overall_columns_keys
        image_frequencies_keys[OF assms]) simp

lemma csv_names_distinct:
  "distinct
      [''Image_1_Free_Word'', ''Image_1_Free_Freq'', ''Image_1_Adj_Word'', ''Image_1_Adj_Freq'',
       ''Image_1_Noun_Word'', ''Image_1_Noun_Freq'',
       ''Image_2_Free_Word'', ''Image_2_Free_Freq'', ''Image_2_Adj_Word'', ''Image_2_Adj_Freq'',
       ''Image_2_Noun_Word'', ''Image_2_Noun_Freq'',
       ''Image_3_Free_Word'', ''Image_3_Free_Freq'', ''Image_3_Adj_Word'', ''Image_3_Adj_Freq'',
       ''Image_3_Noun_Word'', ''Image_3_Noun_Freq'',
       ''Image_4_Free_Word'', ''Image_4_Free_Freq'', ''Image_4_Adj_Word'', ''Image_4_Adj_Freq'',
       ''Image_4_Noun_Word'', ''Image_4_Noun_Freq'',
       ''Image_5_Free_Word'', ''Image_5_Free_Freq'', ''Image_5_Adj_Word'', ''Image_5_Adj_Freq'',
       ''Image_5_Noun_Word'', ''Image_5_Noun_Freq'',
       ''Image_6_Free_Word'', ''Image_6_Free_Freq'', ''Image_6_Adj_Word'', ''Image_6_Adj_Freq'',
       ''Image_6_Noun_Word'', ''Image_6_Noun_Freq'',
       ''Overall_Free_Word'', ''Overall_Free_Freq'', ''Overall_Adj_Word'', ''Overall_Adj_Freq'',
       ''Overall_Noun_Word'', ''Overall_Noun_Freq'']"
  by code_simp

lemma csv_data_concat:
  assumes "keys_ok st"
  shows "csv_data st n
     = concat (map (\<lambda>(image, freq). image_columns image freq n) (image_frequencies st))
       @ overall_columns st n"
proof -
  let ?g = "\<lambda>(image, freq). image_columns image freq n"
  let ?body = "concat (map ?g (image_frequencies st))"
  have d: "distinct (map fst (?body @ overall_columns st n))"
    by (simp only: csv_keys_aux[OF assms] csv_names_distinct)
  then have d1: "distinct (map fst ([] @ ?body))" by simp
  have f: "(\<lambda>(image, freq) d. dict_update d (image_columns image freq n))
        = (\<lambda>x d. dict_update d (?g x))"
    by (auto simp: fun_eq_iff)
  have "fold (\<lambda>x d. dict_update d (?g x)) (image_frequencies st) [] = [] @ ?body"
    by (rule fold_dict_update[OF d1])
  moreover have "dict_update ?body (overall_columns st n) = ?body @ overall_columns st n"
    by (rule dict_update_append) (use d in simp)
  ultimately show ?thesis by (simp add: csv_data_def f)
qed

lemma length_pad: "length (pad xs k) = length xs + k"
  by (simp add: pad_def)

lemma image_columns_lengths:
  assumes "length (description_word_freq freq) \<le> n" "length (adjective_freq freq) \<le> n"
    "length (noun_freq freq) \<le> n"
  shows "list_all (\<lambda>(k, col). length col = n) (image_columns img freq n)"
  using assms by (simp add: image_columns_def Let_def length_pad length_most_common)

lemma overall_columns_lengths:
  assumes "length (overall_description_word_freq st) \<le> n" "length (overall_adjective_freq st) \<le> n"
    "length (overall_noun_freq st) \<le> n"
  shows "list_all (\<lambda>(k, col). length col = n) (overall_columns st n)"
  using assms by (simp add: overall_columns_def length_pad length_most_common)

lemma csv_data_lengths:
  assumes "keys_ok st" and le: "\<forall>t\<in>set (tables st). length t \<le> n"
  shows "list_all (\<lambda>(k, col). length col = n) (csv_data st n)"
proof -
  have "list_all (\<lambda>(k, col). length col = n) (image_columns image freq n)"
    if "(image, freq) \<in> set (image_frequencies st)" for image freq
  proof -
    from that have "description_word_freq freq \<in> set (tables st)"
      "adjective_freq freq \<in> set (tables st)" "noun_freq freq \<in> set (tables st)"
      by (auto simp: tables_mem)
    with le show ?thesis by (intro image_columns_lengths) blast+
  qed
  then have "list_all (\<lambda>(k, col). length col = n)
      (concat (map (\<lambda>(image, freq). image_columns image freq n) (image_frequencies st)))"
    unfolding list_all_iff by fastforce
  moreover have "list_all (\<lambda>(k, col). length col = n) (overall_columns st n)"
  proof -
    have "overall_description_word_freq st \<in> set (tables st)"
      "overall_adjective_freq st \<in> set (tables st)" "overall_noun_freq st \<in> set (tables st)"
      by (simp_all add: tables_mem)
    with le show ?thesis by (intro overall_columns_lengths) blast+
  qed
  ultimately show ?thesis by (simp add: csv_data_concat[OF assms(1)])
qed

lemma DataFrame_equal_lengths:
  "list_all (\<lambda>(k, col). length col = n) d \<Longrightarrow> DataFrame d = Inr d"
  by (cases d) (auto simp: DataFrame_def list_all_iff)

lemma num_rows_equal_lengths:
  "list_all (\<lambda>(k, col). length col = n) d \<Longrightarrow> d \<noteq> [] \<Longrightarrow> num_rows d = n"
  by (cases d) (auto simp: num_rows_def)


lemma length_tables: "keys_ok st \<Longrightarrow> length (tables st) = 21"
proof -
  assume k: "keys_ok st"
  have "length (concat (map (\<lambda>(image, freq).
                    [description_word_freq freq, adjective_freq freq, noun_freq freq]) fs))
        = 3 * length fs" for fs :: "(string \<times> image_frequency) list"
    by (induction fs) auto
  moreover have "length (image_frequencies st) = 6"
    using image_frequencies_keys[OF k] by (metis length_map list.size(3,4) One_nat_def
        Suc_eq_plus1 numeral_2_eq_2 numeral_3_eq_3 eval_nat_numeral(2,3) semiring_norm(26,27,28))
  ultimately show ?thesis by (simp add: tables_def)
qed

lemma most_common_full:
  "length t \<le> n \<Longrightarrow> most_common n t = sort_key (\<lambda>item. - int (snd item)) t"
  by (simp add: most_common_def)

lemma overall_in_tables:
  "overall_description_word_freq st \<in> set (tables st)"
  "overall_adjective_freq st \<in> set (tables st)"
  "overall_noun_freq st \<in> set (tables st)"
  by (simp_all add: tables_mem)

lemma image_columns_spec:
  assumes "length (description_word_freq freq) \<le> n" "length (adjective_freq freq) \<le> n"
    "length (noun_freq freq) \<le> n"
  shows "image_columns img freq n
     = [(img @ ''_Free_Word'', spec_word_column n (description_word_freq freq)),
        (img @ ''_Free_Freq'', spec_freq_column n (description_word_freq freq)),
        (img @ ''_Adj_Word'', spec_word_column n (adjective_freq freq)),
        (img @ ''_Adj_Freq'', spec_freq_column n (adjective_freq freq)),
        (img @ ''_Noun_Word'', spec_word_column n (noun_freq freq)),
        (img @ ''_Noun_Freq'', spec_freq_column n (noun_freq freq))]"
  using assms
  by (simp add: image_columns_def Let_def pad_def most_common_full spec_word_column_def
      spec_freq_column_def spec_ranked_def)

lemma overall_columns_spec:
  assumes "length (overall_description_word_freq st) \<le> n" "length (overall_adjective_freq st) \<le> n"
    "length (overall_noun_freq st) \<le> n"
  shows "overall_columns st n
     = [(''Overall_Free_Word'', spec_word_column n (overall_description_word_freq st)),
        (''Overall_Free_Freq'', spec_freq_column n (overall_description_word_freq st)),
        (''Overall_Adj_Word'', spec_word_column n (overall_adjective_freq st)),
        (''Overall_Adj_Freq'', spec_freq_column n (overall_adjective_freq st)),
        (''Overall_Noun_Word'', spec_word_column n (overall_noun_freq st)),
        (''Overall_Noun_Freq'', spec_freq_column n (overall_noun_freq st))]"
  using assms
  by (simp add: overall_columns_def pad_def most_common_full spec_word_column_def
      spec_freq_column_def spec_ranked_def)

lemma csv_data_spec:
  assumes k: "keys_ok st" and le: "\<forall>t\<in>set (tables st). length t \<le> n"
  shows "csv_data st n
     = concat (map (\<lambda>(image, freq).
          [(image @ ''_Free_Word'', spec_word_column n (description_word_freq freq)),
           (image @ ''_Free_Freq'', spec_freq_column n (description_word_freq freq)),
           (image @ ''_Adj_Word'', spec_word_column n (adjective_freq freq)),
           (image @ ''_Adj_Freq'', spec_freq_column n (adjective_freq freq)),
           (image @ ''_Noun_Word'', spec_word_column n (noun_freq freq)),
           (image @ ''_Noun_Freq'', spec_freq_column n (noun_freq freq))])
         (image_frequencies st))
       @ [(''Overall_Free_Word'', spec_word_column n (overall_description_word_freq st)),
          (''Overall_Free_Freq'', spec_freq_column n (overall_description_word_freq st)),
          (''Overall_Adj_Word'', spec_word_column n (overall_adjective_freq st)),
          (''Overall_Adj_Freq'', spec_freq_column n (overall_adjective_freq st)),
          (''Overall_Noun_Word'', spec_word_column n (overall_noun_freq st)),
          (''Overall_Noun_Freq'', spec_freq_column n (overall_noun_freq st))]"
proof -
  have img: "(\<lambda>(image, freq). image_columns image freq n) x
      = (\<lambda>(image, freq).
          [(image @ ''_Free_Word'', spec_word_column n (description_word_freq freq)),
           (image @ ''_Free_Freq'', spec_freq_column n (description_word_freq freq)),
           (image @ ''_Adj_Word'', spec_word_column n (adjective_freq freq)),
           (image @ ''_Adj_Freq'', spec_freq_column n (adjective_freq freq)),
           (image @ ''_Noun_Word'', spec_word_column n (noun_freq freq)),
           (image @ ''_Noun_Freq'', spec_freq_column n (noun_freq freq))]) x"
    if "x \<in> set (image_frequencies st)" for x
  proof -
    obtain img freq where x: "x = (img, freq)" by (cases x) auto
    with that have "description_word_freq freq \<in> set (tables st)"
      "adjective_freq freq \<in> set (tables st)" "noun_freq freq \<in> set (tables st)"
      by (auto simp: tables_mem)
    with le have "length (description_word_freq freq) \<le> n" "length (adjective_freq freq) \<le> n"
      "length (noun_freq freq) \<le> n" by blast+
    then show ?thesis unfolding x by (simp only: prod.case image_columns_spec)
  qed
  have ov: "length (overall_description_word_freq st) \<le> n" "length (overall_adjective_freq st) \<le> n"
    "length (overall_noun_freq st) \<le> n"
    using le overall_in_tables[of st] by blast+
  have "map (\<lambda>(image, freq). image_columns image freq n) (image_frequencies st)
      = map (\<lambda>(image, freq).
          [(image @ ''_Free_Word'', spec_word_column n (description_word_freq freq)),
           (image @ ''_Free_Freq'', spec_freq_column n (description_word_freq freq)),
           (image @ ''_Adj_Word'', spec_word_column n (adjective_freq freq)),
           (image @ ''_Adj_Freq'', spec_freq_column n (adjective_freq freq)),
           (image @ ''_Noun_Word'', spec_word_column n (noun_freq freq)),
           (image @ ''_Noun_Freq'', spec_freq_column n (noun_freq freq))])
         (image_frequencies st)"
    by (rule map_cong[OF refl]) (rule img)
  then show ?thesis
    by (simp only: csv_data_concat[OF k] overall_columns_spec[OF ov])
qed

text \<open>
  C7. The script never raises after loading: it ends with a data frame of 42 columns,
  named as listed, six for each image and six overall. The number \<open>n\<close> of its rows is
  \<open>max_rows\<close>, the largest length among the 21 frequency tables (word, adjective and noun
  table of each of the six images and of the overall roll-up). Every column has exactly
  \<open>n\<close> values, and the frame is, column by column, what the specification asks for: the
  words, or the counts, of the whole ranked table (\<open>spec_ranked\<close>: nothing is cut, since
  \<open>most_common n\<close> returns the whole table), followed by \<open>n - length t\<close> empty strings.
\<close>

theorem exported_table_shape:
  "\<exists>st n. main nlp data = Inr (st, csv_data st n)
     \<and> main_loop nlp data = Inr st
     \<and> max_rows st = Inr n
     \<and> length (tables st) = 21
     \<and> n = Max (set (map length (tables st)))
     \<and> num_rows (csv_data st n) = n
     \<and> list_all (\<lambda>(name, col). length col = n) (csv_data st n)
     \<and> list_all (\<lambda>t. most_common n t = sort_key (\<lambda>item. - int (snd item)) t) (tables st)
     \<and> csv_data st n
         = concat (map (\<lambda>(image, freq). image_columns image freq n) (image_frequencies st))
           @ overall_columns st n
     \<and> csv_data st n
         = concat (map (\<lambda>(image, freq).
              [(image @ ''_Free_Word'', spec_word_column n (description_word_freq freq)),
               (image @ ''_Free_Freq'', spec_freq_column n (description_word_freq freq)),
               (image @ ''_Adj_Word'', spec_word_column n (adjective_freq freq)),
               (image @ ''_Adj_Freq'', spec_freq_column n (adjective_freq freq)),
               (image @ ''_Noun_Word'', spec_word_column n (noun_freq freq)),
               (image @ ''_Noun_Freq'', spec_freq_column n (noun_freq freq))])
             (image_frequencies st))
           @ [(''Overall_Free_Word'', spec_word_column n (overall_description_word_freq st)),
              (''Overall_Free_Freq'', spec_freq_column n (overall_description_word_freq st)),
              (''Overall_Adj_Word'', spec_word_column n (overall_adjective_freq st)),
              (''Overall_Adj_Freq'', spec_freq_column n (overall_adjective_freq st)),
              (''Overall_Noun_Word'', spec_word_column n (overall_noun_freq st)),
              (''Overall_Noun_Freq'', spec_freq_column n (overall_noun_freq st))]
     \<and> image_frequencies st
         = map (\<lambda>(image, results).
                  (image,
                   \<lparr> description_word_freq = Counter (r_all_tokens results),
                     adjective_freq = Counter (r_adjectives results),
                     noun_freq = Counter (r_nouns results) \<rparr>))
             (image_results st)
     \<and> map fst (csv_data st n)
        = [''Image_1_Free_Word'', ''Image_1_Free_Freq'', ''Image_1_Adj_Word'', ''Image_1_Adj_Freq'',
           ''Image_1_Noun_Word'', ''Image_1_Noun_Freq'',
           ''Image_2_Free_Word'', ''Image_2_Free_Freq'', ''Image_2_Adj_Word'', ''Image_2_Adj_Freq'',
           ''Image_2_Noun_Word'', ''Image_2_Noun_Freq'',
           ''Image_3_Free_Word'', ''Image_3_Free_Freq'', ''Image_3_Adj_Word'', ''Image_3_Adj_Freq'',
           ''Image_3_Noun_Word'', ''Image_3_Noun_Freq'',
           ''Image_4_Free_Word'', ''Image_4_Free_Freq'', ''Image_4_Adj_Word'', ''Image_4_Adj_Freq'',
           ''Image_4_Noun_Word'', ''Image_4_Noun_Freq'',
           ''Image_5_Free_Word'', ''Image_5_Free_Freq'', ''Image_5_Adj_Word'', ''Image_5_Adj_Freq'',
           ''Image_5_Noun_Word'', ''Image_5_Noun_Freq'',
           ''Image_6_Free_Word'', ''Image_6_Free_Freq'', ''Image_6_Adj_Word'', ''Image_6_Adj_Freq'',
           ''Image_6_Noun_Word'', ''Image_6_Noun_Freq'',
           ''Overall_Free_Word'', ''Overall_Free_Freq'', ''Overall_Adj_Word'', ''Overall_Adj_Freq'',
           ''Overall_Noun_Word'', ''Overall_Noun_Freq'']"
proof -
  obtain st where run: "main_loop nlp data = Inr st" and k: "keys_ok st"
    using main_loop_counters[of nlp data] by blast
  from max_rows_char[OF k] obtain n where n: "max_rows st = Inr n"
    and le: "\<forall>t\<in>set (tables st). length t \<le> n" by blast
  have len: "list_all (\<lambda>(name, col). length col = n) (csv_data st n)"
    by (rule csv_data_lengths[OF k le])
  have cc: "csv_data st n
         = concat (map (\<lambda>(image, freq). image_columns image freq n) (image_frequencies st))
           @ overall_columns st n"
    by (rule csv_data_concat[OF k])
  have keys: "map fst (csv_data st n)
        = [''Image_1_Free_Word'', ''Image_1_Free_Freq'', ''Image_1_Adj_Word'', ''Image_1_Adj_Freq'',
           ''Image_1_Noun_Word'', ''Image_1_Noun_Freq'',
           ''Image_2_Free_Word'', ''Image_2_Free_Freq'', ''Image_2_Adj_Word'', ''Image_2_Adj_Freq'',
           ''Image_2_Noun_Word'', ''Image_2_Noun_Freq'',
           ''Image_3_Free_Word'', ''Image_3_Free_Freq'', ''Image_3_Adj_Word'', ''Image_3_Adj_Freq'',
           ''Image_3_Noun_Word'', ''Image_3_Noun_Freq'',
           ''Image_4_Free_Word'', ''Image_4_Free_Freq'', ''Image_4_Adj_Word'', ''Image_4_Adj_Freq'',
           ''Image_4_Noun_Word'', ''Image_4_Noun_Freq'',
           ''Image_5_Free_Word'', ''Image_5_Free_Freq'', ''Image_5_Adj_Word'', ''Image_5_Adj_Freq'',
           ''Image_5_Noun_Word'', ''Image_5_Noun_Freq'',
           ''Image_6_Free_Word'', ''Image_6_Free_Freq'', ''Image_6_Adj_Word'', ''Image_6_Adj_Freq'',
           ''Image_6_Noun_Word'', ''Image_6_Noun_Freq'',
           ''Overall_Free_Word'', ''Overall_Free_Freq'', ''Overall_Adj_Word'', ''Overall_Adj_Freq'',
           ''Overall_Noun_Word'', ''Overall_Noun_Freq'']"
    unfolding cc by (rule csv_keys_aux[OF k])
  then have ne: "csv_data st n \<noteq> []" by auto
  have m: "main nlp data = Inr (st, csv_data st n)"
    by (simp add: main_def run n bind_err_Inr DataFrame_equal_lengths[OF len])
  have full: "list_all (\<lambda>t. most_common n t = sort_key (\<lambda>item. - int (snd item)) t) (tables st)"
    unfolding list_all_iff using le most_common_full by blast
  note facts = m run n length_tables[OF k] max_rows_Max[OF k n]
    num_rows_equal_lengths[OF len ne] len full cc keys
    csv_data_spec[OF k le] image_frequencies_map[OF k]
  show ?thesis
    by (rule exI[of _ st], rule exI[of _ n], intro conjI) (rule facts)+
qed


theorem exported_table_shape_witness:
  "\<exists>st df.
      main sample_nlp
        [(\<lambda>c. None)(''Description_1'' := Some ''A bright red house'',
                     ''Adjectives_1'' := Some ''bright, red'')] = Inr (st, df)
    \<and> num_rows df = 3
    \<and> map_of df ''Image_1_Free_Word'' = Some [Str ''bright'', Str ''red'', Str ''house'']
    \<and> map_of df ''Image_1_Adj_Word'' = Some [Str ''bright'', Str ''red'', Str '''']
    \<and> map_of df ''Image_1_Adj_Freq'' = Some [Num 1, Num 1, Str '''']
    \<and> map_of df ''Image_2_Free_Word'' = Some [Str '''', Str '''', Str '''']"
proof -
  let ?row = "(\<lambda>c. None)(''Description_1'' := Some ''A bright red house'',
                     ''Adjectives_1'' := Some ''bright, red'')"
  have ev: "map_sum id
      (\<lambda>(st, df). (num_rows df, map_of df ''Image_1_Free_Word'', map_of df ''Image_1_Adj_Word'',
                   map_of df ''Image_1_Adj_Freq'', map_of df ''Image_2_Free_Word''))
      (main sample_nlp [?row])
    = Inr (3, Some [Str ''bright'', Str ''red'', Str ''house''],
           Some [Str ''bright'', Str ''red'', Str ''''], Some [Num 1, Num 1, Str ''''],
           Some [Str '''', Str '''', Str ''''])"
    by code_simp
  from exported_table_shape [of sample_nlp "[?row]"]
  obtain st n where m: "main sample_nlp [?row] = Inr (st, csv_data st n)" by blast
  with ev show ?thesis by auto
qed

section \<open>The excluded stimulus\<close>

lemma overall_pair_effect:
  assumes "overall_aggregates st = overall_aggregates st'"
    and "agree_off_2 row row'"
    and mem: "(i, d, a) \<in> set (enumerate_list image_pairs)"
  shows "overall_aggregates (pair_effect nlp row i d a r s st)
           = overall_aggregates (pair_effect nlp row' i d a r' s' st')"
proof (cases "i = 1")
  case True
  with assms(1) show ?thesis
    by (simp add: overall_aggregates_def pair_effect_def Let_def)
next
  case False
  with pair_excluded[OF mem] have "d \<noteq> ''Description_2''" "a \<noteq> ''Adjectives_2''" by auto
  moreover have "d \<noteq> ''Adjectives_2''" "a \<noteq> ''Description_2''"
    using mem by (auto simp: enumerate_image_pairs)
  moreover have "d \<in> set columns" "a \<in> set columns"
    using mem by (auto simp: enumerate_image_pairs columns_def)
  ultimately have "row d = row' d" "row a = row' a"
    using assms(2) by (simp_all add: agree_off_2_def list_all_iff)
  with assms(1) show ?thesis
    by (simp add: overall_aggregates_def pair_effect_def Let_def)
qed

lemma process_row_agree:
  assumes "keys_ok st" and "keys_ok st'"
    and "overall_aggregates st = overall_aggregates st'"
    and "agree_off_2 row row'"
    and "set ps \<subseteq> set (enumerate_list image_pairs)"
  shows "\<exists>t t'. process_row nlp row ps st = Inr t \<and> process_row nlp row' ps st' = Inr t'
           \<and> keys_ok t \<and> keys_ok t' \<and> overall_aggregates t = overall_aggregates t'"
  using assms
proof (induction ps arbitrary: st st')
  case Nil
  then show ?case by simp
next
  case (Cons p ps)
  obtain i d a where p: "p = (i, d, a)" by (cases p) auto
  with Cons.prems(5) have mem: "(i, d, a) \<in> set (enumerate_list image_pairs)" by simp
  from pair_entries[OF Cons.prems(1) mem] obtain r s
    where r: "map_of (image_results st) (image_name i) = Some r"
      and s: "map_of (adj_stats st) a = Some s" by blast
  from pair_entries[OF Cons.prems(2) mem] obtain r' s'
    where r': "map_of (image_results st') (image_name i) = Some r'"
      and s': "map_of (adj_stats st') a = Some s'" by blast
  let ?t = "pair_effect nlp row i d a r s st"
  let ?t' = "pair_effect nlp row' i d a r' s' st'"
  have 1: "process_pair nlp row i d a st = Inr ?t" by (rule process_pair_effect[OF r s])
  have 2: "process_pair nlp row' i d a st' = Inr ?t'" by (rule process_pair_effect[OF r' s'])
  have k: "keys_ok ?t" by (rule keys_ok_pair_effect[OF Cons.prems(1) r s])
  have k': "keys_ok ?t'" by (rule keys_ok_pair_effect[OF Cons.prems(2) r' s'])
  have ov: "overall_aggregates ?t = overall_aggregates ?t'"
    by (rule overall_pair_effect[OF Cons.prems(3,4) mem])
  have sub: "set ps \<subseteq> set (enumerate_list image_pairs)" using Cons.prems(5) by simp
  from Cons.IH[OF k k' ov Cons.prems(4) sub] show ?case
    by (simp add: p 1 2 bind_err_Inr)
qed

lemma process_rows_agree:
  assumes "list_all2 agree_off_2 rows rows'"
    and "keys_ok st" and "keys_ok st'"
    and "overall_aggregates st = overall_aggregates st'"
  shows "\<exists>t t'. process_rows nlp rows st = Inr t \<and> process_rows nlp rows' st' = Inr t'
           \<and> keys_ok t \<and> keys_ok t' \<and> overall_aggregates t = overall_aggregates t'"
  using assms
proof (induction arbitrary: st st' rule: list_all2_induct)
  case Nil
  then show ?case by simp
next
  case (Cons row rows row' rows')
  from process_row_agree[OF Cons.prems(1,2,3) Cons.hyps(1) subset_refl]
  obtain t t' where 1: "process_row nlp row (enumerate_list image_pairs) st = Inr t"
    and 2: "process_row nlp row' (enumerate_list image_pairs) st' = Inr t'"
    and k: "keys_ok t" and k': "keys_ok t'" and ov: "overall_aggregates t = overall_aggregates t'"
    by blast
  from Cons.IH[OF k k' ov] show ?case by (simp add: 1 2 bind_err_Inr)
qed

text \<open>What the run leaves in the entry of each image.\<close>

lemma process_row_image:
  assumes "keys_ok st" and "set ps \<subseteq> set (enumerate_list image_pairs)"
    and "map_of (image_results st) k = Some r"
  shows "\<exists>t. process_row nlp row ps st = Inr t \<and> keys_ok t
           \<and> map_of (image_results t) k
               = Some (fold (\<lambda>(i, d, a) r. if image_name i = k
                                then image_effect nlp (row d) (row a) r else r) ps r)"
  using assms
proof (induction ps arbitrary: st r)
  case Nil
  then show ?case by simp
next
  case (Cons p ps)
  obtain i d a where p: "p = (i, d, a)" by (cases p) auto
  with Cons.prems(2) have mem: "(i, d, a) \<in> set (enumerate_list image_pairs)" by simp
  from pair_entries[OF Cons.prems(1) mem] obtain r0 s0
    where r0: "map_of (image_results st) (image_name i) = Some r0"
      and s0: "map_of (adj_stats st) a = Some s0" by blast
  let ?t = "pair_effect nlp row i d a r0 s0 st"
  have 1: "process_pair nlp row i d a st = Inr ?t" by (rule process_pair_effect[OF r0 s0])
  have k: "keys_ok ?t" by (rule keys_ok_pair_effect[OF Cons.prems(1) r0 s0])
  have img: "map_of (image_results ?t) k
      = Some (if image_name i = k then image_effect nlp (row d) (row a) r else r)"
    using r0 Cons.prems(3)
    by (auto simp: pair_effect_def Let_def AList.update_conv')
  have sub: "set ps \<subseteq> set (enumerate_list image_pairs)" using Cons.prems(2) by simp
  from Cons.IH[OF k sub img] show ?case
    by (simp add: p 1 bind_err_Inr)
qed

lemma fold_image_effect:
  assumes "(j, dj, aj) \<in> set (enumerate_list image_pairs)"
  shows "fold (\<lambda>(i, d, a) r. if image_name i = image_name j
                 then image_effect nlp (row d) (row a) r else r) (enumerate_list image_pairs) r
         = image_effect nlp (row dj) (row aj) r"
proof -
  from assms consider
      "j = 0 \<and> dj = ''Description_1'' \<and> aj = ''Adjectives_1''"
    | "j = 1 \<and> dj = ''Description_2'' \<and> aj = ''Adjectives_2''"
    | "j = 2 \<and> dj = ''Description_3'' \<and> aj = ''Adjectives_3''"
    | "j = 3 \<and> dj = ''Description_4'' \<and> aj = ''Adjectives_4''"
    | "j = 4 \<and> dj = ''Description_5'' \<and> aj = ''Adjectives_5''"
    | "j = 5 \<and> dj = ''Description_6'' \<and> aj = ''Adjectives_6''"
    unfolding enumerate_image_pairs by auto
  then show ?thesis
  proof cases
    case 1 then show ?thesis by (simp add: enumerate_image_pairs image_names)
  next
    case 2 then show ?thesis by (simp add: enumerate_image_pairs image_names)
  next
    case 3 then show ?thesis by (simp add: enumerate_image_pairs image_names)
  next
    case 4 then show ?thesis by (simp add: enumerate_image_pairs image_names)
  next
    case 5 then show ?thesis by (simp add: enumerate_image_pairs image_names)
  next
    case 6 then show ?thesis by (simp add: enumerate_image_pairs image_names)
  qed
qed

lemma fold_image_effect_rows:
  "fold (\<lambda>row r. image_effect nlp (row d) (row a) r) rows r
     = \<lparr> r_all_tokens = r_all_tokens r @ concat (map (\<lambda>row. tokenize_description nlp (row d)) rows),
         r_adjectives = r_adjectives r
            @ concat (map (\<lambda>row. filter_adjectives nlp (extract_adjectives (row a))) rows),
         r_nouns = r_nouns r @ concat (map (\<lambda>row. extract_nouns nlp (row d)) rows) \<rparr>"
  by (induction rows arbitrary: r) (simp_all add: image_effect_def)

lemma process_rows_image:
  assumes "keys_ok st" and mem: "(j, dj, aj) \<in> set (enumerate_list image_pairs)"
    and "map_of (image_results st) (image_name j) = Some r"
  shows "\<exists>t. process_rows nlp rows st = Inr t \<and> keys_ok t
           \<and> map_of (image_results t) (image_name j)
               = Some (fold (\<lambda>row r. image_effect nlp (row dj) (row aj) r) rows r)"
  using assms(1,3)
proof (induction rows arbitrary: st r)
  case Nil
  then show ?case by simp
next
  case (Cons row rows)
  from process_row_image[OF Cons.prems(1) subset_refl Cons.prems(2), of nlp row]
  obtain t where 1: "process_row nlp row (enumerate_list image_pairs) st = Inr t"
    and k: "keys_ok t"
    and img: "map_of (image_results t) (image_name j)
                = Some (image_effect nlp (row dj) (row aj) r)"
    by (auto simp only: fold_image_effect[OF mem])
  from Cons.IH[OF k img] show ?case by (simp add: 1 bind_err_Inr)
qed

lemma main_loop_image:
  assumes mem: "(j, dj, aj) \<in> set (enumerate_list image_pairs)"
  shows "\<exists>t. main_loop nlp data = Inr t \<and> keys_ok t
           \<and> map_of (image_results t) (image_name j)
               = Some \<lparr> r_all_tokens = concat (map (\<lambda>row. tokenize_description nlp (row dj)) data),
                   r_adjectives
                     = concat (map (\<lambda>row. filter_adjectives nlp (extract_adjectives (row aj))) data),
                   r_nouns = concat (map (\<lambda>row. extract_nouns nlp (row dj)) data) \<rparr>"
proof -
  have "map_of (image_results init_state) (image_name j)
      = Some \<lparr> r_all_tokens = [], r_adjectives = [], r_nouns = [] \<rparr>"
    using mem by (auto simp: enumerate_image_pairs image_names init_state_eq)
  from process_rows_image[OF keys_ok_init mem this, of nlp data]
  show ?thesis by (simp add: main_loop_def fold_image_effect_rows)
qed


text \<open>What the run leaves in the overall lists.\<close>

lemma process_row_overall:
  assumes "keys_ok st" and "set ps \<subseteq> set (enumerate_list image_pairs)"
  shows "\<exists>t. process_row nlp row ps st = Inr t \<and> keys_ok t
           \<and> all_tokens t = all_tokens st
                @ concat (map (\<lambda>(i, d, a). if i \<noteq> 1 then tokenize_description nlp (row d) else []) ps)
           \<and> all_adjectives t = all_adjectives st
                @ concat (map (\<lambda>(i, d, a). if i \<noteq> 1
                     then filter_adjectives nlp (extract_adjectives (row a)) else []) ps)
           \<and> all_nouns t = all_nouns st
                @ concat (map (\<lambda>(i, d, a). if i \<noteq> 1 then extract_nouns nlp (row d) else []) ps)"
  using assms
proof (induction ps arbitrary: st)
  case Nil
  then show ?case by simp
next
  case (Cons p ps)
  obtain i d a where p: "p = (i, d, a)" by (cases p) auto
  with Cons.prems(2) have mem: "(i, d, a) \<in> set (enumerate_list image_pairs)" by simp
  from pair_entries[OF Cons.prems(1) mem] obtain r s
    where r: "map_of (image_results st) (image_name i) = Some r"
      and s: "map_of (adj_stats st) a = Some s" by blast
  let ?t = "pair_effect nlp row i d a r s st"
  have 1: "process_pair nlp row i d a st = Inr ?t" by (rule process_pair_effect[OF r s])
  have k: "keys_ok ?t" by (rule keys_ok_pair_effect[OF Cons.prems(1) r s])
  have sub: "set ps \<subseteq> set (enumerate_list image_pairs)" using Cons.prems(2) by simp
  have e: "all_tokens ?t = all_tokens st @ (if i \<noteq> 1 then tokenize_description nlp (row d) else [])"
    "all_adjectives ?t = all_adjectives st
       @ (if i \<noteq> 1 then filter_adjectives nlp (extract_adjectives (row a)) else [])"
    "all_nouns ?t = all_nouns st @ (if i \<noteq> 1 then extract_nouns nlp (row d) else [])"
    by (simp_all add: pair_effect_def Let_def)
  from Cons.IH[OF k sub] obtain t where t: "process_row nlp row ps ?t = Inr t" "keys_ok t"
    "all_tokens t = all_tokens ?t
        @ concat (map (\<lambda>(i, d, a). if i \<noteq> 1 then tokenize_description nlp (row d) else []) ps)"
    "all_adjectives t = all_adjectives ?t
        @ concat (map (\<lambda>(i, d, a). if i \<noteq> 1
             then filter_adjectives nlp (extract_adjectives (row a)) else []) ps)"
    "all_nouns t = all_nouns ?t
        @ concat (map (\<lambda>(i, d, a). if i \<noteq> 1 then extract_nouns nlp (row d) else []) ps)"
    by blast
  show ?case
    by (rule exI[of _ t]) (simp add: p 1 bind_err_Inr t e)
qed

lemma process_rows_overall:
  assumes "keys_ok st"
  shows "\<exists>t. process_rows nlp rows st = Inr t \<and> keys_ok t
           \<and> all_tokens t = all_tokens st
                @ concat (map (\<lambda>row. concat (map (\<lambda>d. tokenize_description nlp (row d))
                    [''Description_1'', ''Description_3'', ''Description_4'', ''Description_5'',
                     ''Description_6''])) rows)
           \<and> all_adjectives t = all_adjectives st
                @ concat (map (\<lambda>row. concat (map (\<lambda>a. filter_adjectives nlp (extract_adjectives (row a)))
                    [''Adjectives_1'', ''Adjectives_3'', ''Adjectives_4'', ''Adjectives_5'',
                     ''Adjectives_6''])) rows)
           \<and> all_nouns t = all_nouns st
                @ concat (map (\<lambda>row. concat (map (\<lambda>d. extract_nouns nlp (row d))
                    [''Description_1'', ''Description_3'', ''Description_4'', ''Description_5'',
                     ''Description_6''])) rows)"
  using assms
proof (induction rows arbitrary: st)
  case Nil
  then show ?case by simp
next
  case (Cons row rows)
  from process_row_overall[OF Cons.prems subset_refl, of nlp row]
  obtain u where u: "process_row nlp row (enumerate_list image_pairs) st = Inr u" "keys_ok u"
    "all_tokens u = all_tokens st
        @ concat (map (\<lambda>d. tokenize_description nlp (row d))
            [''Description_1'', ''Description_3'', ''Description_4'', ''Description_5'',
             ''Description_6''])"
    "all_adjectives u = all_adjectives st
        @ concat (map (\<lambda>a. filter_adjectives nlp (extract_adjectives (row a)))
            [''Adjectives_1'', ''Adjectives_3'', ''Adjectives_4'', ''Adjectives_5'',
             ''Adjectives_6''])"
    "all_nouns u = all_nouns st
        @ concat (map (\<lambda>d. extract_nouns nlp (row d))
            [''Description_1'', ''Description_3'', ''Description_4'', ''Description_5'',
             ''Description_6''])"
    unfolding enumerate_image_pairs by auto
  from Cons.IH[OF u(2)] obtain t where t: "process_rows nlp rows u = Inr t" "keys_ok t"
    "all_tokens t = all_tokens u
                @ concat (map (\<lambda>row. concat (map (\<lambda>d. tokenize_description nlp (row d))
                    [''Description_1'', ''Description_3'', ''Description_4'', ''Description_5'',
                     ''Description_6''])) rows)"
    "all_adjectives t = all_adjectives u
                @ concat (map (\<lambda>row. concat (map (\<lambda>a. filter_adjectives nlp (extract_adjectives (row a)))
                    [''Adjectives_1'', ''Adjectives_3'', ''Adjectives_4'', ''Adjectives_5'',
                     ''Adjectives_6''])) rows)"
    "all_nouns t = all_nouns u
                @ concat (map (\<lambda>row. concat (map (\<lambda>d. extract_nouns nlp (row d))
                    [''Description_1'', ''Description_3'', ''Description_4'', ''Description_5'',
                     ''Description_6''])) rows)"
    by blast
  show ?case
    by (rule exI[of _ t]) (simp add: u t bind_err_Inr)
qed

lemma main_loop_overall:
  "main_loop nlp data = Inr st \<Longrightarrow>
     all_tokens st
       = concat (map (\<lambda>row. concat (map (\<lambda>d. tokenize_description nlp (row d))
                    [''Description_1'', ''Description_3'', ''Description_4'', ''Description_5'',
                     ''Description_6''])) data)
     \<and> all_adjectives st
       = concat (map (\<lambda>row. concat (map (\<lambda>a. filter_adjectives nlp (extract_adjectives (row a)))
                    [''Adjectives_1'', ''Adjectives_3'', ''Adjectives_4'', ''Adjectives_5'',
                     ''Adjectives_6''])) data)
     \<and> all_nouns st
       = concat (map (\<lambda>row. concat (map (\<lambda>d. extract_nouns nlp (row d))
                    [''Description_1'', ''Description_3'', ''Description_4'', ''Description_5'',
                     ''Description_6''])) data)"
  using process_rows_overall[OF keys_ok_init, of nlp data]
  by (auto simp: main_loop_def init_state_eq)

lemma main_total:
  "\<exists>st n. main nlp data = Inr (st, csv_data st n) \<and> main_loop nlp data = Inr st
      \<and> keys_ok st \<and> max_rows st = Inr n \<and> (\<forall>t\<in>set (tables st). length t \<le> n)"
proof -
  obtain st where run: "main_loop nlp data = Inr st" and k: "keys_ok st"
    using main_loop_counters[of nlp data] by blast
  from max_rows_char[OF k] obtain n where n: "max_rows st = Inr n"
    and le: "\<forall>t\<in>set (tables st). length t \<le> n" by blast
  have "main nlp data = Inr (st, csv_data st n)"
    by (simp add: main_def run n bind_err_Inr DataFrame_equal_lengths[OF csv_data_lengths[OF k le]])
  with run k n le show ?thesis by blast
qed

lemma image_2_columns:
  assumes "keys_ok st" and "map_of (image_results st) ''Image_2'' = Some r"
  shows "set (image_columns ''Image_2''
                \<lparr> description_word_freq = Counter (r_all_tokens r),
                  adjective_freq = Counter (r_adjectives r),
                  noun_freq = Counter (r_nouns r) \<rparr> n)
           \<subseteq> set (csv_data st n)"
proof -
  from assms(2) have "(''Image_2'', r) \<in> set (image_results st)" by (rule map_of_SomeD)
  then have "(''Image_2'', \<lparr> description_word_freq = Counter (r_all_tokens r),
                  adjective_freq = Counter (r_adjectives r),
                  noun_freq = Counter (r_nouns r) \<rparr>) \<in> set (image_frequencies st)"
    unfolding image_frequencies_map[OF assms(1)] by force
  then show ?thesis
    unfolding csv_data_concat[OF assms(1)] by force
qed

text \<open>
  C4. Two input tables of the same length whose rows differ at most in the cells
  \<open>Description_2\<close> and \<open>Adjectives_2\<close> both run to the end, with the same overall token,
  adjective and noun lists, the same overall counters and frequency tables, and the same
  ranked overall tables in the report. The overall lists are made, row by row, of what the
  five other stimuli contribute, and of nothing else. Stimulus 2 keeps its own report: the entry of
  \<open>Image_2\<close> holds what the tokenizer, the validator and the noun extractor return on its
  cells, row by row, and the six \<open>Image_2\<close> columns made from it are in the exported frame.
\<close>

theorem overall_excludes_stimulus_2:
  assumes "list_all2 agree_off_2 data data'"
  shows "\<exists>st st' n n'.
           main nlp data = Inr (st, csv_data st n) \<and> main nlp data' = Inr (st', csv_data st' n')
         \<and> main_loop nlp data = Inr st \<and> main_loop nlp data' = Inr st'
         \<and> max_rows st = Inr n \<and> max_rows st' = Inr n'
         \<and> all_tokens st = all_tokens st'
         \<and> all_adjectives st = all_adjectives st'
         \<and> all_nouns st = all_nouns st'
         \<and> all_tokens st
             = concat (map (\<lambda>row. concat (map (\<lambda>d. tokenize_description nlp (row d))
                    [''Description_1'', ''Description_3'', ''Description_4'', ''Description_5'',
                     ''Description_6''])) data)
         \<and> all_adjectives st
             = concat (map (\<lambda>row. concat (map (\<lambda>a. filter_adjectives nlp (extract_adjectives (row a)))
                    [''Adjectives_1'', ''Adjectives_3'', ''Adjectives_4'', ''Adjectives_5'',
                     ''Adjectives_6''])) data)
         \<and> all_nouns st
             = concat (map (\<lambda>row. concat (map (\<lambda>d. extract_nouns nlp (row d))
                    [''Description_1'', ''Description_3'', ''Description_4'', ''Description_5'',
                     ''Description_6''])) data)
         \<and> overall_adj_cells st = overall_adj_cells st'
         \<and> overall_adj_valid_cells st = overall_adj_valid_cells st'
         \<and> overall_description_word_freq st = overall_description_word_freq st'
         \<and> overall_adjective_freq st = overall_adjective_freq st'
         \<and> overall_noun_freq st = overall_noun_freq st'
         \<and> most_common n (overall_description_word_freq st)
             = most_common n' (overall_description_word_freq st')
         \<and> most_common n (overall_adjective_freq st)
             = most_common n' (overall_adjective_freq st')
         \<and> most_common n (overall_noun_freq st) = most_common n' (overall_noun_freq st')
         \<and> map_of (image_results st) ''Image_2''
             = Some \<lparr> r_all_tokens
                        = concat (map (\<lambda>row. tokenize_description nlp (row ''Description_2'')) data),
                      r_adjectives
                        = concat (map (\<lambda>row. filter_adjectives nlp
                                                (extract_adjectives (row ''Adjectives_2''))) data),
                      r_nouns = concat (map (\<lambda>row. extract_nouns nlp (row ''Description_2'')) data) \<rparr>
         \<and> set (image_columns ''Image_2''
                  \<lparr> description_word_freq = Counter
                       (concat (map (\<lambda>row. tokenize_description nlp (row ''Description_2'')) data)),
                    adjective_freq = Counter
                       (concat (map (\<lambda>row. filter_adjectives nlp
                                                (extract_adjectives (row ''Adjectives_2''))) data)),
                    noun_freq = Counter
                       (concat (map (\<lambda>row. extract_nouns nlp (row ''Description_2'')) data)) \<rparr> n)
               \<subseteq> set (csv_data st n)"
proof -
  obtain st n where m: "main nlp data = Inr (st, csv_data st n)"
    and run: "main_loop nlp data = Inr st" and k: "keys_ok st" and n: "max_rows st = Inr n"
    and le: "\<forall>t\<in>set (tables st). length t \<le> n"
    using main_total[of nlp data] by blast
  obtain st' n' where m': "main nlp data' = Inr (st', csv_data st' n')"
    and run': "main_loop nlp data' = Inr st'" and k': "keys_ok st'" and n': "max_rows st' = Inr n'"
    and le': "\<forall>t\<in>set (tables st'). length t \<le> n'"
    using main_total[of nlp data'] by blast
  from process_rows_agree[OF assms keys_ok_init keys_ok_init refl, of nlp] run run'
  have ov: "overall_aggregates st = overall_aggregates st'"
    by (auto simp: main_loop_def)
  then have t: "all_tokens st = all_tokens st'" and a: "all_adjectives st = all_adjectives st'"
    and no: "all_nouns st = all_nouns st'" and c: "overall_adj_cells st = overall_adj_cells st'"
    and v: "overall_adj_valid_cells st = overall_adj_valid_cells st'"
    by (simp_all add: overall_aggregates_def)
  have ft: "overall_description_word_freq st = overall_description_word_freq st'"
    by (simp add: overall_description_word_freq_def t)
  have fa: "overall_adjective_freq st = overall_adjective_freq st'"
    by (simp add: overall_adjective_freq_def a)
  have fn: "overall_noun_freq st = overall_noun_freq st'"
    by (simp add: overall_noun_freq_def no)
  have rt: "most_common n (overall_description_word_freq st)
             = most_common n' (overall_description_word_freq st')"
    using le le' overall_in_tables(1)[of st] overall_in_tables(1)[of st']
    by (simp add: most_common_full ft)
  have ra: "most_common n (overall_adjective_freq st)
             = most_common n' (overall_adjective_freq st')"
    using le le' overall_in_tables(2)[of st] overall_in_tables(2)[of st']
    by (simp add: most_common_full fa)
  have rn: "most_common n (overall_noun_freq st) = most_common n' (overall_noun_freq st')"
    using le le' overall_in_tables(3)[of st] overall_in_tables(3)[of st']
    by (simp add: most_common_full fn)
  have mem: "(1, ''Description_2'', ''Adjectives_2'') \<in> set (enumerate_list image_pairs)"
    by (simp add: enumerate_image_pairs)
  from main_loop_image[OF mem, of nlp data] run
  have i2: "map_of (image_results st) ''Image_2''
             = Some \<lparr> r_all_tokens
                        = concat (map (\<lambda>row. tokenize_description nlp (row ''Description_2'')) data),
                      r_adjectives
                        = concat (map (\<lambda>row. filter_adjectives nlp
                                                (extract_adjectives (row ''Adjectives_2''))) data),
                      r_nouns = concat (map (\<lambda>row. extract_nouns nlp (row ''Description_2'')) data) \<rparr>"
    by (auto simp: image_names)
  from image_2_columns[OF k i2, of n]
  have cols: "set (image_columns ''Image_2''
                  \<lparr> description_word_freq = Counter
                       (concat (map (\<lambda>row. tokenize_description nlp (row ''Description_2'')) data)),
                    adjective_freq = Counter
                       (concat (map (\<lambda>row. filter_adjectives nlp
                                                (extract_adjectives (row ''Adjectives_2''))) data)),
                    noun_freq = Counter
                       (concat (map (\<lambda>row. extract_nouns nlp (row ''Description_2'')) data)) \<rparr> n)
               \<subseteq> set (csv_data st n)"
    by simp
  from main_loop_overall[OF run]
  have ct: "all_tokens st
             = concat (map (\<lambda>row. concat (map (\<lambda>d. tokenize_description nlp (row d))
                    [''Description_1'', ''Description_3'', ''Description_4'', ''Description_5'',
                     ''Description_6''])) data)"
    and ca: "all_adjectives st
             = concat (map (\<lambda>row. concat (map (\<lambda>a. filter_adjectives nlp (extract_adjectives (row a)))
                    [''Adjectives_1'', ''Adjectives_3'', ''Adjectives_4'', ''Adjectives_5'',
                     ''Adjectives_6''])) data)"
    and cn: "all_nouns st
             = concat (map (\<lambda>row. concat (map (\<lambda>d. extract_nouns nlp (row d))
                    [''Description_1'', ''Description_3'', ''Description_4'', ''Description_5'',
                     ''Description_6''])) data)"
    by blast+
  note facts = m m' run run' n n' t a no ct ca cn c v ft fa fn rt ra rn i2 cols
  show ?thesis
    by (rule exI[of _ st], rule exI[of _ st'], rule exI[of _ n], rule exI[of _ n'], intro conjI)
      (rule facts)+
qed


theorem overall_excludes_stimulus_2_witness:
  "list_all2 agree_off_2
     [(\<lambda>c. None)(''Description_1'' := Some ''a bright house'', ''Description_2'' := Some ''the robot'')]
     [(\<lambda>c. None)(''Description_1'' := Some ''a bright house'', ''Description_2'' := Some ''the tree'',
                  ''Adjectives_2'' := Some ''dark'')]
   \<and> (\<exists>st st'.
         main_loop sample_nlp
           [(\<lambda>c. None)(''Description_1'' := Some ''a bright house'',
                        ''Description_2'' := Some ''the robot'')] = Inr st
       \<and> main_loop sample_nlp
           [(\<lambda>c. None)(''Description_1'' := Some ''a bright house'',
                        ''Description_2'' := Some ''the tree'', ''Adjectives_2'' := Some ''dark'')]
           = Inr st'
       \<and> all_tokens st = all_tokens st'
       \<and> overall_adj_cells st = overall_adj_cells st'
       \<and> map_of (image_results st) ''Image_2''
           = Some \<lparr> r_all_tokens = [''robot''], r_adjectives = [], r_nouns = [''robot''] \<rparr>)"
proof -
  let ?A = "(\<lambda>c. None)(''Description_1'' := Some ''a bright house'',
                        ''Description_2'' := Some ''the robot'')"
  let ?B = "(\<lambda>c. None)(''Description_1'' := Some ''a bright house'',
                        ''Description_2'' := Some ''the tree'', ''Adjectives_2'' := Some ''dark'')"
  have h: "list_all2 agree_off_2 [?A] [?B]"
    by (simp add: agree_off_2_def columns_def)
  have e1: "tokenize_description sample_nlp (Some ''the robot'') = [''robot'']" by code_simp
  have e2: "extract_nouns sample_nlp (Some ''the robot'') = [''robot'']" by code_simp
  have e3: "filter_adjectives sample_nlp (extract_adjectives None) = []"
    by (simp add: extract_adjectives_None)
  from overall_excludes_stimulus_2 [OF h, of sample_nlp]
  obtain st st' where "main_loop sample_nlp [?A] = Inr st" "main_loop sample_nlp [?B] = Inr st'"
    "all_tokens st = all_tokens st'" "overall_adj_cells st = overall_adj_cells st'"
    "map_of (image_results st) ''Image_2''
       = Some \<lparr> r_all_tokens
                  = concat (map (\<lambda>row. tokenize_description sample_nlp (row ''Description_2'')) [?A]),
                r_adjectives
                  = concat (map (\<lambda>row. filter_adjectives sample_nlp
                                          (extract_adjectives (row ''Adjectives_2''))) [?A]),
                r_nouns = concat (map (\<lambda>row. extract_nouns sample_nlp (row ''Description_2'')) [?A]) \<rparr>"
    by blast
  then have "main_loop sample_nlp [?A] = Inr st \<and> main_loop sample_nlp [?B] = Inr st'
       \<and> all_tokens st = all_tokens st'
       \<and> overall_adj_cells st = overall_adj_cells st'
       \<and> map_of (image_results st) ''Image_2''
           = Some \<lparr> r_all_tokens = [''robot''], r_adjectives = [], r_nouns = [''robot''] \<rparr>"
    by (simp add: e1 e2 e3)
  with h show ?thesis by blast
qed


end
